theory Spec2Isabelle
  imports
    Complex_Main
    "HOL-Library.Char_ord"
    "HOL-Library.List_Lexorder"
    "HOL-Library.Log_Nat"
    "HOL-Library.Sublist"
begin

section \<open>JavaScript values and string operations used by the report pages\<close>

text \<open>
  The client pages filter arrays of plain records with \<^verbatim>\<open>Array.prototype.filter\<close> and a
  callback built from \<^verbatim>\<open>toLowerCase\<close>, \<^verbatim>\<open>includes\<close>, the relational operators on strings
  and \<^verbatim>\<open>new Date(s).toISOString().split('T')[0]\<close>. Strings are modelled as lists of
  code units in the range U+0000..U+00FF (the 8-bit characters of HOL); the relational operators of JavaScript compare strings code unit by
  code unit, which is the lexicographic order of \<^theory_text>\<open>HOL-Library.List_Lexorder\<close> over the
  order on characters.
\<close>

text \<open>
  \<^verbatim>\<open>String.prototype.toLowerCase\<close> maps each code unit by the Unicode lower-case
  mapping. In the range U+0000..U+00FF the code units it changes are the letters
  \<^verbatim>\<open>A\<close>..\<^verbatim>\<open>Z\<close> (U+0041..U+005A) and the capital letters U+00C0..U+00DE other than
  the multiplication sign U+00D7; each is mapped to the code unit 32 above it, which is
  setting bit 5. Every other code unit of the range is kept.
\<close>

definition toLowerChar :: "char \<Rightarrow> char" where
  "toLowerChar c =
     (if (CHR ''A'' \<le> c \<and> c \<le> CHR ''Z'') \<or> (CHR 0xC0 \<le> c \<and> c \<le> CHR 0xDE \<and> c \<noteq> CHR 0xD7)
      then (case c of Char b0 b1 b2 b3 b4 b5 b6 b7 \<Rightarrow> Char b0 b1 b2 b3 b4 True b6 b7)
      else c)"

definition toLowerCase :: "string \<Rightarrow> string" where
  "toLowerCase s = map toLowerChar s"

text \<open>
  \<^verbatim>\<open>hay.includes(needle)\<close>: the needle occurs in the haystack at some position. The
  search tries every start position from the left.
\<close>

fun str_includes :: "string \<Rightarrow> string \<Rightarrow> bool" where
  "str_includes [] needle = (needle = [])"
| "str_includes (c # cs) needle = (prefix needle (c # cs) \<or> str_includes cs needle)"

text \<open>
  The value of an expression built from optional chaining, \<^verbatim>\<open>||\<close> and \<^verbatim>\<open>&&\<close>: a
  boolean or \<^verbatim>\<open>undefined\<close>. \<^verbatim>\<open>a || b\<close> is \<^verbatim>\<open>a\<close> when \<^verbatim>\<open>a\<close> is truthy and
  \<^verbatim>\<open>b\<close> otherwise; \<^verbatim>\<open>a && b\<close> is \<^verbatim>\<open>b\<close> when \<^verbatim>\<open>a\<close> is truthy and \<^verbatim>\<open>a\<close>
  otherwise. \<^verbatim>\<open>Array.prototype.filter\<close> keeps an element when the callback's value is
  truthy.
\<close>

datatype jsval = JUndefined | JBool bool

fun truthy :: "jsval \<Rightarrow> bool" where
  "truthy JUndefined = False"
| "truthy (JBool b) = b"

definition js_or :: "jsval \<Rightarrow> jsval \<Rightarrow> jsval" where
  "js_or a b = (if truthy a then a else b)"

definition js_and :: "jsval \<Rightarrow> jsval \<Rightarrow> jsval" where
  "js_and a b = (if truthy a then b else a)"

text \<open>
  \<^verbatim>\<open>field?.toLowerCase().includes(term.toLowerCase())\<close>: \<^verbatim>\<open>undefined\<close> when the field
  is \<^verbatim>\<open>null\<close> or \<^verbatim>\<open>undefined\<close>, the boolean otherwise.
\<close>

definition opt_includes :: "string option \<Rightarrow> string \<Rightarrow> jsval" where
  "opt_includes field term =
     (case field of
        None \<Rightarrow> JUndefined
      | Some s \<Rightarrow> JBool (str_includes (toLowerCase s) (toLowerCase term)))"

text \<open>
  The only exception the filters can raise: \<^verbatim>\<open>Date.prototype.toISOString\<close> throws a
  \<^verbatim>\<open>RangeError\<close> on an Invalid Date.
\<close>

datatype error = RangeError

text \<open>
  \<^verbatim>\<open>field ? new Date(field).toISOString().split('T')[0] : ''\<close>. The date parser of the
  JavaScript engine is a parameter \<open>isoOf\<close>: \<open>isoOf s\<close> is \<open>Some d\<close> when
  \<^verbatim>\<open>new Date(s)\<close> is a valid date whose ISO rendering starts with the day \<open>d\<close>, and
  \<open>None\<close> when \<^verbatim>\<open>new Date(s)\<close> is an Invalid Date. A missing field
  (\<^verbatim>\<open>null\<close>/\<^verbatim>\<open>undefined\<close>) and the empty string are both falsy.
\<close>

definition isoDay :: "(string \<Rightarrow> string option) \<Rightarrow> string option \<Rightarrow> error + string" where
  "isoDay isoOf field =
     (case field of
        None \<Rightarrow> Inr []
      | Some s \<Rightarrow>
          if s = [] then Inr []
          else (case isoOf s of None \<Rightarrow> Inl RangeError | Some d \<Rightarrow> Inr d))"

text \<open>
  \<^verbatim>\<open>xs.filter(cb)\<close> with a callback that may throw: elements are visited from the left,
  the first exception aborts the whole call, and otherwise a new array of the kept
  elements is returned.
\<close>

fun filterE :: "('a \<Rightarrow> error + bool) \<Rightarrow> 'a list \<Rightarrow> error + 'a list" where
  "filterE cb [] = Inr []"
| "filterE cb (x # xs) =
     (case cb x of
        Inl e \<Rightarrow> Inl e
      | Inr keep \<Rightarrow>
          (case filterE cb xs of
             Inl e \<Rightarrow> Inl e
           | Inr ys \<Rightarrow> Inr (if keep then x # ys else ys)))"

text \<open>
  The values of \<^verbatim>\<open>new Date(s).toISOString().split('T')[0]\<close> on the date strings used in
  the examples below; a string outside the table stands for one that does not parse.
\<close>

definition sampleDates :: "string \<Rightarrow> string option" where
  "sampleDates = map_of
     [(''2024-01-15T10:30:00.000Z'', ''2024-01-15''),
      (''2024-02-20T08:00:00.000Z'', ''2024-02-20''),
      (''2024-03-05'', ''2024-03-05'')]"

section \<open>Customer activity page\<close>

text \<open>
  The \<^verbatim>\<open>CustomerActivity\<close> interface of \<^verbatim>\<open>CustomerActivity.tsx\<close>. The number type of
  \<^verbatim>\<open>amount\<close> and \<^verbatim>\<open>balance\<close> is a type parameter. \<^verbatim>\<open>type\<close> and \<^verbatim>\<open>status\<close>
  are unions of string literals and are strings at run time. The \<^verbatim>\<open>date\<close> field is read
  through a truthiness test, so it is optional here.
\<close>

record 'n customer_activity =
  id_a :: string
  customerId :: string
  customerName :: string
  type_a :: string
  description :: string
  amount :: 'n
  balance :: 'n
  date :: "string option"
  referenceNumber :: string
  paymentMethod :: "string option"
  status :: string

definition matchesSearch :: "'n customer_activity \<Rightarrow> string \<Rightarrow> bool" where
  "matchesSearch activity searchTerm =
     (str_includes (toLowerCase (customerName activity)) (toLowerCase searchTerm) \<or>
      str_includes (toLowerCase (referenceNumber activity)) (toLowerCase searchTerm) \<or>
      str_includes (toLowerCase (description activity)) (toLowerCase searchTerm))"

definition matchesType :: "'n customer_activity \<Rightarrow> string \<Rightarrow> bool" where
  "matchesType activity typeFilter = (typeFilter = ''all'' \<or> type_a activity = typeFilter)"

text \<open>
  The date-range block shared by the customer-activity and payment-history filters:
  two independent \<^verbatim>\<open>if\<close>s, each of which can only switch the flag to false.
\<close>

definition matchesDateRange ::
  "(string \<Rightarrow> string option) \<Rightarrow> string \<Rightarrow> string \<Rightarrow> string option \<Rightarrow> error + bool" where
  "matchesDateRange isoOf fromDate toDate field =
     (if fromDate \<noteq> [] \<or> toDate \<noteq> [] then
        (case isoDay isoOf field of
           Inl e \<Rightarrow> Inl e
         | Inr activityDate \<Rightarrow>
             (let m1 = (if fromDate \<noteq> [] \<and> activityDate < fromDate then False else True);
                  m2 = (if toDate \<noteq> [] \<and> activityDate > toDate then False else m1)
              in Inr m2))
      else Inr True)"

definition keepActivity ::
  "(string \<Rightarrow> string option) \<Rightarrow> string \<Rightarrow> string \<Rightarrow> string \<Rightarrow> string \<Rightarrow>
   'n customer_activity \<Rightarrow> error + bool" where
  "keepActivity isoOf searchTerm typeFilter fromDate toDate activity =
     (case matchesDateRange isoOf fromDate toDate (date activity) of
        Inl e \<Rightarrow> Inl e
      | Inr inRange \<Rightarrow>
          Inr (matchesSearch activity searchTerm \<and> matchesType activity typeFilter \<and> inRange))"

text \<open>
  The component state the filter effect reads and writes (the four filter inputs carry
  the suffix \<open>_st\<close>), and the effect itself: an
  empty activity list short-circuits to an empty result; otherwise the filtered array is
  stored with \<^verbatim>\<open>setFilteredActivities\<close>. An exception leaves the state as it was.
\<close>

record 'n activity_state =
  searchTerm_st :: string
  typeFilter_st :: string
  fromDate_st :: string
  toDate_st :: string
  activities :: "'n customer_activity list"
  filteredActivities :: "'n customer_activity list"

definition filterActivities :: "(string \<Rightarrow> string option) \<Rightarrow> 'n activity_state \<Rightarrow> error + 'n activity_state" where
  "filterActivities isoOf s =
     (if activities s = [] then Inr (s\<lparr>filteredActivities := []\<rparr>)
      else
        (case filterE (keepActivity isoOf (searchTerm_st s) (typeFilter_st s) (fromDate_st s) (toDate_st s))
                (activities s) of
           Inl e \<Rightarrow> Inl e
         | Inr filtered \<Rightarrow> Inr (s\<lparr>filteredActivities := filtered\<rparr>)))"

text \<open>
  The summary statistics computed from the filtered list: \<^verbatim>\<open>reduce\<close> adds from the left,
  starting at 0, in the page's number type.
\<close>

definition totalSales :: "('n::{zero,plus}) customer_activity list \<Rightarrow> 'n" where
  "totalSales fa = foldl (\<lambda>sum a. sum + amount a) 0 (filter (\<lambda>a. type_a a = ''sale'') fa)"

definition totalPayments :: "('n::{zero,plus}) customer_activity list \<Rightarrow> 'n" where
  "totalPayments fa = foldl (\<lambda>sum a. sum + amount a) 0 (filter (\<lambda>a. type_a a = ''payment'') fa)"

definition completedActivities :: "'n customer_activity list \<Rightarrow> nat" where
  "completedActivities fa = length (filter (\<lambda>a. status a = ''completed'') fa)"

definition pendingActivities :: "'n customer_activity list \<Rightarrow> nat" where
  "pendingActivities fa = length (filter (\<lambda>a. status a = ''pending'') fa)"

section \<open>Expense management page\<close>

text \<open>
  The fields of \<^verbatim>\<open>Expense\<close> that the filter of \<^verbatim>\<open>ExpenseManagement.tsx\<close> reads. The
  filter reads \<^verbatim>\<open>description\<close> and \<^verbatim>\<open>receiptNumber\<close> through optional chaining and
  \<^verbatim>\<open>expenseDate\<close> through a truthiness test, so all three are optional here, as is
  \<^verbatim>\<open>category\<close>, which the interface does not declare.
\<close>

record expense =
  id_e :: string
  description_e :: "string option"
  amount_e :: string
  receiptNumber :: "string option"
  category :: "string option"
  expenseDate :: "string option"

definition matchesSearch_e :: "expense \<Rightarrow> string \<Rightarrow> jsval" where
  "matchesSearch_e expense searchTerm =
     js_or (opt_includes (description_e expense) searchTerm)
           (opt_includes (receiptNumber expense) searchTerm)"

definition matchesCategory :: "expense \<Rightarrow> string \<Rightarrow> bool" where
  "matchesCategory expense categoryFilter =
     (categoryFilter = ''all'' \<or> category expense = Some categoryFilter)"

text \<open>
  The date-range block of the expense filter: an \<^verbatim>\<open>if\<close>/\<^verbatim>\<open>else if\<close> chain. The
  effect around the filter stores the filtered array only when its JSON rendering differs
  from the stored one; \<open>filterExpenses\<close> below is the filtered array itself.
\<close>

definition matchesDateRange_e ::
  "(string \<Rightarrow> string option) \<Rightarrow> string \<Rightarrow> string \<Rightarrow> string option \<Rightarrow> error + bool" where
  "matchesDateRange_e isoOf fromDate toDate field =
     (if fromDate \<noteq> [] \<or> toDate \<noteq> [] then
        (case isoDay isoOf field of
           Inl e \<Rightarrow> Inl e
         | Inr day \<Rightarrow>
             Inr (if fromDate \<noteq> [] \<and> toDate \<noteq> [] then day \<ge> fromDate \<and> day \<le> toDate
                  else if fromDate \<noteq> [] then day \<ge> fromDate
                  else if toDate \<noteq> [] then day \<le> toDate
                  else True))
      else Inr True)"

definition keepExpense ::
  "(string \<Rightarrow> string option) \<Rightarrow> string \<Rightarrow> string \<Rightarrow> string \<Rightarrow> string \<Rightarrow> expense \<Rightarrow> error + bool" where
  "keepExpense isoOf searchTerm categoryFilter fromDate toDate expense =
     (case matchesDateRange_e isoOf fromDate toDate (expenseDate expense) of
        Inl e \<Rightarrow> Inl e
      | Inr inRange \<Rightarrow>
          Inr (truthy (js_and (js_and (matchesSearch_e expense searchTerm)
                                      (JBool (matchesCategory expense categoryFilter)))
                              (JBool inRange))))"

definition filterExpenses ::
  "(string \<Rightarrow> string option) \<Rightarrow> string \<Rightarrow> string \<Rightarrow> string \<Rightarrow> string \<Rightarrow> expense list \<Rightarrow>
   error + expense list" where
  "filterExpenses isoOf searchTerm categoryFilter fromDate toDate expenses =
     filterE (keepExpense isoOf searchTerm categoryFilter fromDate toDate) expenses"

section \<open>Payment history page\<close>

text \<open>
  The fields of \<^verbatim>\<open>Payment\<close> that the filter of the payment-history page reads. The
  type is declared in the shared schema, which is not among the source files, so the
  record follows the page's reads: \<^verbatim>\<open>referenceNumber\<close> and \<^verbatim>\<open>notes\<close> through optional
  chaining, \<^verbatim>\<open>paymentDate\<close> through a truthiness test.
\<close>

record payment =
  id_p :: string
  referenceNumber_p :: "string option"
  notes_p :: "string option"
  paymentMethod_p :: string
  paymentDate :: "string option"
  amount_p :: string

definition matchesSearch_p :: "payment \<Rightarrow> string \<Rightarrow> jsval" where
  "matchesSearch_p payment searchTerm =
     js_or (opt_includes (referenceNumber_p payment) searchTerm)
           (opt_includes (notes_p payment) searchTerm)"

definition matchesMethod :: "payment \<Rightarrow> string \<Rightarrow> bool" where
  "matchesMethod payment paymentMethodFilter =
     (paymentMethodFilter = ''all'' \<or> paymentMethod_p payment = paymentMethodFilter)"

definition keepPayment ::
  "(string \<Rightarrow> string option) \<Rightarrow> string \<Rightarrow> string \<Rightarrow> string \<Rightarrow> string \<Rightarrow> payment \<Rightarrow> error + bool" where
  "keepPayment isoOf searchTerm paymentMethodFilter fromDate toDate payment =
     (case matchesDateRange isoOf fromDate toDate (paymentDate payment) of
        Inl e \<Rightarrow> Inl e
      | Inr inRange \<Rightarrow>
          Inr (truthy (js_and (js_and (matchesSearch_p payment searchTerm)
                                      (JBool (matchesMethod payment paymentMethodFilter)))
                              (JBool inRange))))"

definition filterPayments ::
  "(string \<Rightarrow> string option) \<Rightarrow> string \<Rightarrow> string \<Rightarrow> string \<Rightarrow> string \<Rightarrow> payment list \<Rightarrow>
   error + payment list" where
  "filterPayments isoOf searchTerm paymentMethodFilter fromDate toDate payments =
     filterE (keepPayment isoOf searchTerm paymentMethodFilter fromDate toDate) payments"

section \<open>Date helpers of the utility module\<close>

text \<open>
  \<^verbatim>\<open>toISODate\<close> of \<^verbatim>\<open>utils.ts\<close> guards against an Invalid Date and returns the empty
  string for it; \<open>localDay s\<close> stands for the zero-padded local year-month-day of
  \<^verbatim>\<open>new Date(s)\<close>, or \<open>None\<close> when that date is invalid.
\<close>

definition toISODate :: "(string \<Rightarrow> string option) \<Rightarrow> string option \<Rightarrow> string" where
  "toISODate localDay d =
     (case d of
        None \<Rightarrow> []
      | Some s \<Rightarrow>
          if s = [] then []
          else (case localDay s of None \<Rightarrow> [] | Some ymd \<Rightarrow> ymd))"

definition inISODateRange :: "string \<Rightarrow> string \<Rightarrow> string \<Rightarrow> bool" where
  "inISODateRange dateISO fromISO toISO =
     (if dateISO = [] \<or> fromISO = [] \<or> toISO = [] then False
      else dateISO \<ge> fromISO \<and> dateISO \<le> toISO)"

section \<open>Ledger events and running balances\<close>

text \<open>
  Modelled from the spec: the running-balance calculator (a ledger event with its kind,
  timestamp and signed decimal amount; a balance snapshot per event; a single left-to-right
  fold from the opening balance). No file of the client computes running balances: the
  customer-activity page only displays the \<^verbatim>\<open>balance\<close> field it receives. Decimal
  amounts are exact rationals.
\<close>

datatype event_kind = Sale | Payment | Credit | Adjustment | PriceChange

record ledger_event =
  entityId :: string
  timestamp :: int
  kind :: event_kind
  amount_l :: rat
  referenceId :: string

record balance_snapshot =
  afterEvent :: ledger_event
  runningBalance :: rat

definition signedAmount :: "ledger_event \<Rightarrow> rat" where
  "signedAmount e = amount_l e"

fun runningBalances :: "rat \<Rightarrow> ledger_event list \<Rightarrow> balance_snapshot list" where
  "runningBalances bal [] = []"
| "runningBalances bal (e # es) =
     \<lparr>afterEvent = e, runningBalance = bal + signedAmount e\<rparr>
       # runningBalances (bal + signedAmount e) es"

section \<open>Aging buckets\<close>

text \<open>
  Modelled from the spec: the aging bucketizer (the aging-reports page is routed by the
  application but is not among the source files). Each bucket has an inclusive lower
  bound and an exclusive upper bound in days; the first bucket has no lower bound, so
  negative ages are current, and the last has no upper bound. The bucketizer walks the
  (amount, age in days) pairs once and adds each amount, and one to the item count, in
  the bucket its age selects.
\<close>

datatype bucket_label = Current | Days30to59 | Days60to89 | Days90plus

fun lowerBoundDays :: "bucket_label \<Rightarrow> int option" where
  "lowerBoundDays Current = None"
| "lowerBoundDays Days30to59 = Some 30"
| "lowerBoundDays Days60to89 = Some 60"
| "lowerBoundDays Days90plus = Some 90"

fun upperBoundDays :: "bucket_label \<Rightarrow> int option" where
  "upperBoundDays Current = Some 30"
| "upperBoundDays Days30to59 = Some 60"
| "upperBoundDays Days60to89 = Some 90"
| "upperBoundDays Days90plus = None"

definition inBucket :: "bucket_label \<Rightarrow> int \<Rightarrow> bool" where
  "inBucket l ageInDays =
     ((case lowerBoundDays l of None \<Rightarrow> True | Some lo \<Rightarrow> lo \<le> ageInDays) \<and>
      (case upperBoundDays l of None \<Rightarrow> True | Some hi \<Rightarrow> ageInDays < hi))"

definition bucketOf :: "int \<Rightarrow> bucket_label" where
  "bucketOf ageInDays =
     (if ageInDays < 30 then Current
      else if ageInDays < 60 then Days30to59
      else if ageInDays < 90 then Days60to89
      else Days90plus)"

record aging_buckets =
  current :: rat
  days30to59 :: rat
  days60to89 :: rat
  days90plus :: rat
  currentCount :: nat
  days30to59Count :: nat
  days60to89Count :: nat
  days90plusCount :: nat

definition emptyBuckets :: aging_buckets where
  "emptyBuckets =
     \<lparr>current = 0, days30to59 = 0, days60to89 = 0, days90plus = 0,
      currentCount = 0, days30to59Count = 0, days60to89Count = 0, days90plusCount = 0\<rparr>"

fun addToBucket :: "aging_buckets \<Rightarrow> rat \<times> int \<Rightarrow> aging_buckets" where
  "addToBucket b (amt, ageInDays) =
     (case bucketOf ageInDays of
        Current \<Rightarrow> b\<lparr>current := current b + amt, currentCount := Suc (currentCount b)\<rparr>
      | Days30to59 \<Rightarrow> b\<lparr>days30to59 := days30to59 b + amt, days30to59Count := Suc (days30to59Count b)\<rparr>
      | Days60to89 \<Rightarrow> b\<lparr>days60to89 := days60to89 b + amt, days60to89Count := Suc (days60to89Count b)\<rparr>
      | Days90plus \<Rightarrow> b\<lparr>days90plus := days90plus b + amt, days90plusCount := Suc (days90plusCount b)\<rparr>)"

definition bucketize :: "(rat \<times> int) list \<Rightarrow> aging_buckets" where
  "bucketize items = foldl addToBucket emptyBuckets items"

fun bucketAmount :: "aging_buckets \<Rightarrow> bucket_label \<Rightarrow> rat" where
  "bucketAmount b Current = current b"
| "bucketAmount b Days30to59 = days30to59 b"
| "bucketAmount b Days60to89 = days60to89 b"
| "bucketAmount b Days90plus = days90plus b"

fun bucketCount :: "aging_buckets \<Rightarrow> bucket_label \<Rightarrow> nat" where
  "bucketCount b Current = currentCount b"
| "bucketCount b Days30to59 = days30to59Count b"
| "bucketCount b Days60to89 = days60to89Count b"
| "bucketCount b Days90plus = days90plusCount b"

section \<open>Derived quantities and sample data\<close>

text \<open>The total over the four buckets, and the number of items over the four buckets.\<close>

definition totalOutstanding :: "aging_buckets \<Rightarrow> rat" where
  "totalOutstanding b = current b + days30to59 b + days60to89 b + days90plus b"

definition totalCount :: "aging_buckets \<Rightarrow> nat" where
  "totalCount b = currentCount b + days30to59Count b + days60to89Count b + days90plusCount b"

text \<open>
  The date condition in closed form: both bounds inclusive when both are supplied,
  one-sided when one is, and no condition when neither is.
\<close>

definition dateRangeSpec :: "string \<Rightarrow> string \<Rightarrow> string \<Rightarrow> bool" where
  "dateRangeSpec fromDate toDate day =
     (if fromDate \<noteq> [] \<and> toDate \<noteq> [] then fromDate \<le> day \<and> day \<le> toDate
      else if fromDate \<noteq> [] then fromDate \<le> day
      else if toDate \<noteq> [] then day \<le> toDate
      else True)"

text \<open>The ledger of the spec's example: a sale of 100, a payment of 40, a sale of 25.\<close>

definition exampleEvents :: "ledger_event list" where
  "exampleEvents =
     [\<lparr>entityId = ''C-1'', timestamp = 1, kind = Sale, amount_l = 100, referenceId = ''INV-1''\<rparr>,
      \<lparr>entityId = ''C-1'', timestamp = 2, kind = Payment, amount_l = - 40, referenceId = ''PAY-1''\<rparr>,
      \<lparr>entityId = ''C-1'', timestamp = 3, kind = Sale, amount_l = 25, referenceId = ''INV-2''\<rparr>]"

text \<open>A customer activity as the API returns it.\<close>

definition sampleActivity :: "int customer_activity" where
  "sampleActivity =
     \<lparr>id_a = ''a1'', customerId = ''c1'', customerName = ''ABC Transport'', type_a = ''sale'',
      description = ''Diesel sale'', amount = 100, balance = 100,
      date = Some ''2024-01-15T10:30:00.000Z'', referenceNumber = ''INV-1001'',
      paymentMethod = None, status = ''completed''\<rparr>"

text \<open>The four summary figures the page shows above the table.\<close>

definition summaryOf :: "('n::{zero,plus}) customer_activity list \<Rightarrow> 'n \<times> 'n \<times> nat \<times> nat" where
  "summaryOf fa = (totalSales fa, totalPayments fa, completedActivities fa, pendingActivities fa)"

text \<open>
  Further sample records: an activity without a date, an activity whose date string
  does not parse, and a payment and an expense without any of the searched text fields.
\<close>

definition undatedActivity :: "int customer_activity" where
  "undatedActivity = sampleActivity\<lparr>date := None\<rparr>"

definition unparseableActivity :: "int customer_activity" where
  "unparseableActivity = sampleActivity\<lparr>date := Some ''not-a-date''\<rparr>"

definition samplePayment :: payment where
  "samplePayment =
     \<lparr>id_p = ''p1'', referenceNumber_p = None, notes_p = None, paymentMethod_p = ''cash'',
      paymentDate = Some ''2024-02-20T08:00:00.000Z'', amount_p = ''2500.00''\<rparr>"

definition sampleExpense :: expense where
  "sampleExpense =
     \<lparr>id_e = ''e1'', description_e = None, amount_e = ''1200.50'', receiptNumber = None,
      category = None, expenseDate = Some ''2024-03-05''\<rparr>"

section \<open>Letters of the code-unit range\<close>

text \<open>
  The capital letters among the code units U+0000..U+00FF, as the Unicode character
  database lists them (the 26 letters \<^verbatim>\<open>A\<close>..\<^verbatim>\<open>Z\<close>, then U+00C0..U+00D6 and
  U+00D8..U+00DE), and their small counterparts in the same order. Two code units are the
  same letter when they are equal or one is the capital of the other. These tables do not
  refer to \<^const>\<open>toLowerChar\<close>; the text search is compared with them.
\<close>

definition upperLetters :: string where
  "upperLetters = ''ABCDEFGHIJKLMNOPQRSTUVWXYZ'' @
     [CHR 0xC0, CHR 0xC1, CHR 0xC2, CHR 0xC3, CHR 0xC4, CHR 0xC5, CHR 0xC6, CHR 0xC7,
      CHR 0xC8, CHR 0xC9, CHR 0xCA, CHR 0xCB, CHR 0xCC, CHR 0xCD, CHR 0xCE, CHR 0xCF,
      CHR 0xD0, CHR 0xD1, CHR 0xD2, CHR 0xD3, CHR 0xD4, CHR 0xD5, CHR 0xD6,
      CHR 0xD8, CHR 0xD9, CHR 0xDA, CHR 0xDB, CHR 0xDC, CHR 0xDD, CHR 0xDE]"

definition lowerLetters :: string where
  "lowerLetters = ''abcdefghijklmnopqrstuvwxyz'' @
     [CHR 0xE0, CHR 0xE1, CHR 0xE2, CHR 0xE3, CHR 0xE4, CHR 0xE5, CHR 0xE6, CHR 0xE7,
      CHR 0xE8, CHR 0xE9, CHR 0xEA, CHR 0xEB, CHR 0xEC, CHR 0xED, CHR 0xEE, CHR 0xEF,
      CHR 0xF0, CHR 0xF1, CHR 0xF2, CHR 0xF3, CHR 0xF4, CHR 0xF5, CHR 0xF6,
      CHR 0xF8, CHR 0xF9, CHR 0xFA, CHR 0xFB, CHR 0xFC, CHR 0xFD, CHR 0xFE]"

definition sameLetter :: "char \<Rightarrow> char \<Rightarrow> bool" where
  "sameLetter c d \<longleftrightarrow>
     c = d \<or> (c, d) \<in> set (zip upperLetters lowerLetters)
           \<or> (d, c) \<in> set (zip upperLetters lowerLetters)"

section \<open>The customer activity page on an explicit store\<close>

text \<open>
  JavaScript arrays and records are objects that are shared by reference, and
  \<^verbatim>\<open>Array.prototype.filter\<close> and \<^verbatim>\<open>Array.prototype.reduce\<close> are loops over the indices
  of the array they are called on. To state what the filter effect and the summary
  figures of \<^verbatim>\<open>CustomerActivity.tsx\<close> read and write, the page is modelled a second time
  on a store: a heap of objects addressed by their position, where an object is an
  activity record or an array of references. The component state holds the four filter
  inputs and two references, to the \<^verbatim>\<open>activities\<close> array and to the array last passed to
  \<^verbatim>\<open>setFilteredActivities\<close>.
\<close>

type_synonym ref = nat

datatype 'n obj = Record "'n customer_activity" | Array "ref list"

text \<open>
  A computation ends with a value, with an exception of the program
  (\<^verbatim>\<open>Thrown\<close>), or it is stuck on a store that is not well formed (a dangling reference,
  or an array where a record is expected), which a running program never sees.
\<close>

datatype fault = Thrown error | Stuck

record 'n runtime =
  heap :: "'n obj list"
  searchTerm_c :: string
  typeFilter_c :: string
  fromDate_c :: string
  toDate_c :: string
  activities_c :: ref
  filteredActivities_c :: ref

type_synonym ('n, 'a) prog = "'n runtime \<Rightarrow> (fault + 'a) \<times> 'n runtime"

text \<open>Sequencing: the second computation runs on the store the first one leaves.\<close>

definition andThen :: "('n, 'a) prog \<Rightarrow> ('a \<Rightarrow> ('n, 'b) prog) \<Rightarrow> ('n, 'b) prog" where
  "andThen m f \<sigma> = (case m \<sigma> of (Inl e, \<sigma>1) \<Rightarrow> (Inl e, \<sigma>1) | (Inr a, \<sigma>1) \<Rightarrow> f a \<sigma>1)"

definition succeed :: "'a \<Rightarrow> ('n, 'a) prog" where
  "succeed a \<sigma> = (Inr a, \<sigma>)"

text \<open>
  The primitive operations: reading the elements of an array, reading a record,
  allocating an empty array (\<^verbatim>\<open>[]\<close>, or the result array that \<^verbatim>\<open>filter\<close> creates) at
  the next free address, appending an element to an array in place, and the state setter
  \<^verbatim>\<open>setFilteredActivities\<close>.
\<close>

definition readArray :: "ref \<Rightarrow> ('n, ref list) prog" where
  "readArray r \<sigma> =
     (if r < length (heap \<sigma>)
      then (case heap \<sigma> ! r of Array xs \<Rightarrow> (Inr xs, \<sigma>) | Record a \<Rightarrow> (Inl Stuck, \<sigma>))
      else (Inl Stuck, \<sigma>))"

definition readRecord :: "ref \<Rightarrow> ('n, 'n customer_activity) prog" where
  "readRecord r \<sigma> =
     (if r < length (heap \<sigma>)
      then (case heap \<sigma> ! r of Record a \<Rightarrow> (Inr a, \<sigma>) | Array xs \<Rightarrow> (Inl Stuck, \<sigma>))
      else (Inl Stuck, \<sigma>))"

definition newArray :: "('n, ref) prog" where
  "newArray \<sigma> = (Inr (length (heap \<sigma>)), \<sigma>\<lparr>heap := heap \<sigma> @ [Array []]\<rparr>)"

definition push :: "ref \<Rightarrow> ref \<Rightarrow> ('n, unit) prog" where
  "push a x \<sigma> =
     (if a < length (heap \<sigma>)
      then (case heap \<sigma> ! a of
              Array xs \<Rightarrow> (Inr (), \<sigma>\<lparr>heap := (heap \<sigma>)[a := Array (xs @ [x])]\<rparr>)
            | Record r \<Rightarrow> (Inl Stuck, \<sigma>))
      else (Inl Stuck, \<sigma>))"

definition setFilteredActivities :: "ref \<Rightarrow> ('n, unit) prog" where
  "setFilteredActivities r \<sigma> = (Inr (), \<sigma>\<lparr>filteredActivities_c := r\<rparr>)"

text \<open>
  A callback that reads the record behind a reference and evaluates a function of its
  fields, which may throw. The callbacks of the page are of this form: they read
  \<^verbatim>\<open>activity.customerName\<close>, \<^verbatim>\<open>a.type\<close>, \<^verbatim>\<open>a.status\<close> and so on and assign nothing.
\<close>

definition onRecord :: "('n customer_activity \<Rightarrow> error + bool) \<Rightarrow> ref \<Rightarrow> ('n, bool) prog" where
  "onRecord p r =
     andThen (readRecord r)
       (\<lambda>a \<sigma>. case p a of Inl e \<Rightarrow> (Inl (Thrown e), \<sigma>) | Inr b \<Rightarrow> (Inr b, \<sigma>))"

text \<open>
  \<^verbatim>\<open>Array.prototype.filter\<close> as ECMA-262 gives it: the length is read once, a new
  array is created, and for each index \<^verbatim>\<open>k\<close> below that length, in ascending order, the
  element at \<^verbatim>\<open>k\<close> is read from the source array as it is at that moment, the callback
  is called on it, and the element is appended to the new array when the callback's
  value is truthy. \<^verbatim>\<open>filterFrom cb src a k n\<close> is the loop with \<^verbatim>\<open>n\<close> indices left.
  An exception of the callback ends the loop.
\<close>

fun filterFrom :: "(ref \<Rightarrow> ('n, bool) prog) \<Rightarrow> ref \<Rightarrow> ref \<Rightarrow> nat \<Rightarrow> nat \<Rightarrow> ('n, unit) prog" where
  "filterFrom cb src a k 0 = succeed ()"
| "filterFrom cb src a k (Suc n) =
     andThen (readArray src)
       (\<lambda>xs. if k < length xs then
                andThen (cb (xs ! k))
                  (\<lambda>selected.
                     if selected then andThen (push a (xs ! k)) (\<lambda>u. filterFrom cb src a (Suc k) n)
                     else filterFrom cb src a (Suc k) n)
              else filterFrom cb src a (Suc k) n)"

definition arrayFilter :: "(ref \<Rightarrow> ('n, bool) prog) \<Rightarrow> ref \<Rightarrow> ('n, ref) prog" where
  "arrayFilter cb src =
     andThen (readArray src)
       (\<lambda>xs. andThen newArray
          (\<lambda>a. andThen (filterFrom cb src a 0 (length xs)) (\<lambda>u. succeed a)))"

text \<open>
  \<^verbatim>\<open>Array.prototype.reduce\<close> with an initial value, in the same style, and the
  \<^verbatim>\<open>length\<close> of an array.
\<close>

fun reduceFrom :: "('b \<Rightarrow> ref \<Rightarrow> ('n, 'b) prog) \<Rightarrow> ref \<Rightarrow> 'b \<Rightarrow> nat \<Rightarrow> nat \<Rightarrow> ('n, 'b) prog" where
  "reduceFrom cb src acc k 0 = succeed acc"
| "reduceFrom cb src acc k (Suc n) =
     andThen (readArray src)
       (\<lambda>xs. if k < length xs then
                andThen (cb acc (xs ! k)) (\<lambda>acc'. reduceFrom cb src acc' (Suc k) n)
              else reduceFrom cb src acc (Suc k) n)"

definition arrayReduce :: "('b \<Rightarrow> ref \<Rightarrow> ('n, 'b) prog) \<Rightarrow> ref \<Rightarrow> 'b \<Rightarrow> ('n, 'b) prog" where
  "arrayReduce cb src init =
     andThen (readArray src) (\<lambda>xs. reduceFrom cb src init 0 (length xs))"

definition arrayLength :: "ref \<Rightarrow> ('n, nat) prog" where
  "arrayLength src = andThen (readArray src) (\<lambda>xs. succeed (length xs))"

text \<open>The reducer \<^verbatim>\<open>(sum, a) => sum + a.amount\<close> of lines 171 and 172.\<close>

definition addAmount :: "('n::plus) \<Rightarrow> ref \<Rightarrow> ('n, 'n) prog" where
  "addAmount subtotal r = andThen (readRecord r) (\<lambda>a. succeed (subtotal + amount a))"

text \<open>
  The filter effect of \<^verbatim>\<open>CustomerActivity.tsx\<close>, lines 63 to 90, on the store: with no
  activities it stores a new empty array; otherwise it calls \<^verbatim>\<open>filter\<close> on the
  \<^verbatim>\<open>activities\<close> array with the callback \<^const>\<open>keepActivity\<close> and stores the reference
  of the array that \<^verbatim>\<open>filter\<close> returns.
\<close>

definition filterEffect :: "(string \<Rightarrow> string option) \<Rightarrow> ('n, unit) prog" where
  "filterEffect isoOf \<sigma> =
     andThen (readArray (activities_c \<sigma>))
       (\<lambda>xs. if length xs = 0 then andThen newArray setFilteredActivities
              else
                andThen
                  (arrayFilter
                     (onRecord (keepActivity isoOf (searchTerm_c \<sigma>) (typeFilter_c \<sigma>)
                                  (fromDate_c \<sigma>) (toDate_c \<sigma>)))
                     (activities_c \<sigma>))
                  setFilteredActivities) \<sigma>"

text \<open>
  The four summary figures of lines 171 to 174, computed during rendering from the
  stored \<^verbatim>\<open>filteredActivities\<close>: each line filters into a new array and reduces it or
  takes its length.
\<close>

definition renderSummary :: "('n::{zero,plus}, 'n \<times> 'n \<times> nat \<times> nat) prog" where
  "renderSummary \<sigma> =
     andThen (arrayFilter (onRecord (\<lambda>a. Inr (type_a a = ''sale''))) (filteredActivities_c \<sigma>))
      (\<lambda>sales. andThen (arrayReduce addAmount sales 0)
      (\<lambda>totalSales. andThen (arrayFilter (onRecord (\<lambda>a. Inr (type_a a = ''payment''))) (filteredActivities_c \<sigma>))
      (\<lambda>payments. andThen (arrayReduce addAmount payments 0)
      (\<lambda>totalPayments. andThen (arrayFilter (onRecord (\<lambda>a. Inr (status a = ''completed''))) (filteredActivities_c \<sigma>))
      (\<lambda>completed. andThen (arrayLength completed)
      (\<lambda>completedActivities. andThen (arrayFilter (onRecord (\<lambda>a. Inr (status a = ''pending''))) (filteredActivities_c \<sigma>))
      (\<lambda>pending. andThen (arrayLength pending)
      (\<lambda>pendingActivities.
         succeed (totalSales, totalPayments, completedActivities, pendingActivities))))))))) \<sigma>"

text \<open>
  Reading the store: the records behind a list of references, the references and the
  records of the array at an address. A store is well formed when \<^verbatim>\<open>activities\<close> and
  \<^verbatim>\<open>filteredActivities\<close> both refer to arrays of records. \<^verbatim>\<open>abstract\<close> is the component
  state as the functional model \<^const>\<open>filterActivities\<close> sees it.
\<close>

fun records :: "'n obj list \<Rightarrow> ref list \<Rightarrow> 'n customer_activity list" where
  "records h [] = []"
| "records h (x # xs) =
     (if x < length h
      then (case h ! x of Record a \<Rightarrow> a # records h xs | Array ys \<Rightarrow> records h xs)
      else records h xs)"

definition refsAt :: "'n obj list \<Rightarrow> ref \<Rightarrow> ref list" where
  "refsAt h r = (if r < length h then (case h ! r of Array xs \<Rightarrow> xs | Record a \<Rightarrow> []) else [])"

definition recordsAt :: "'n obj list \<Rightarrow> ref \<Rightarrow> 'n customer_activity list" where
  "recordsAt h r = records h (refsAt h r)"

definition isRecordRef :: "'n obj list \<Rightarrow> ref \<Rightarrow> bool" where
  "isRecordRef h x = (x < length h \<and> (case h ! x of Record a \<Rightarrow> True | Array ys \<Rightarrow> False))"

definition recordArray :: "'n obj list \<Rightarrow> ref \<Rightarrow> bool" where
  "recordArray h r =
     (r < length h \<and>
      (case h ! r of Array xs \<Rightarrow> list_all (isRecordRef h) xs | Record a \<Rightarrow> False))"

definition wellFormed :: "'n runtime \<Rightarrow> bool" where
  "wellFormed \<sigma> =
     (recordArray (heap \<sigma>) (activities_c \<sigma>) \<and> recordArray (heap \<sigma>) (filteredActivities_c \<sigma>))"

definition abstract :: "'n runtime \<Rightarrow> 'n activity_state" where
  "abstract \<sigma> =
     \<lparr>searchTerm_st = searchTerm_c \<sigma>, typeFilter_st = typeFilter_c \<sigma>,
      fromDate_st = fromDate_c \<sigma>, toDate_st = toDate_c \<sigma>,
      activities = recordsAt (heap \<sigma>) (activities_c \<sigma>),
      filteredActivities = recordsAt (heap \<sigma>) (filteredActivities_c \<sigma>)\<rparr>"

text \<open>
  The references a filter loop has appended when it has walked a list of elements: all
  selected ones, up to the first element on which the callback throws.
\<close>

fun keptBefore :: "('a \<Rightarrow> error + bool) \<Rightarrow> (ref \<times> 'a) list \<Rightarrow> ref list" where
  "keptBefore p [] = []"
| "keptBefore p ((x, a) # rest) =
     (case p a of
        Inl e \<Rightarrow> []
      | Inr b \<Rightarrow> (if b then x # keptBefore p rest else keptBefore p rest))"

text \<open>
  One pass of the page: the filter effect, then the summary figures of the next render.
  Its value is what the page shows: the filtered records and the four figures.
\<close>

definition filterThenRender ::
  "(string \<Rightarrow> string option) \<Rightarrow>
   ('n::{zero,plus}, 'n customer_activity list \<times> 'n \<times> 'n \<times> nat \<times> nat) prog" where
  "filterThenRender isoOf =
     andThen (filterEffect isoOf)
       (\<lambda>u. andThen renderSummary
          (\<lambda>figures \<sigma>. (Inr (recordsAt (heap \<sigma>) (filteredActivities_c \<sigma>), figures), \<sigma>)))"

text \<open>
  Two stores with the same filter inputs and the same activities, laid out differently
  and with different previous results.
\<close>

definition sampleRuntime :: "int runtime" where
  "sampleRuntime =
     \<lparr>heap = [Record sampleActivity, Record (sampleActivity\<lparr>customerName := ''XYZ Co''\<rparr>),
              Record undatedActivity, Array [0, 1, 2], Array [2]],
      searchTerm_c = ''abc'', typeFilter_c = ''all'', fromDate_c = [], toDate_c = ''2024-12-31'',
      activities_c = 3, filteredActivities_c = 4\<rparr>"

definition otherRuntime :: "int runtime" where
  "otherRuntime =
     \<lparr>heap = [Array [], Array [4, 3, 2], Record undatedActivity,
              Record (sampleActivity\<lparr>customerName := ''XYZ Co''\<rparr>), Record sampleActivity],
      searchTerm_c = ''abc'', typeFilter_c = ''all'', fromDate_c = [], toDate_c = ''2024-12-31'',
      activities_c = 1, filteredActivities_c = 0\<rparr>"

section \<open>Numbers and the expense total\<close>

text \<open>
  A JavaScript \<^verbatim>\<open>Number\<close> is an IEEE 754 binary64 value: a rational of the form
  \<open>m * 2 ^ e\<close> with \<open>\<bar>m\<bar> < 2 ^ 53\<close> and \<open>- 1074 \<le> e \<le> 971\<close>, an infinity, or
  NaN. The sign of zero is not modelled; it has no effect on a sum that starts at
  \<^verbatim>\<open>0\<close>.
\<close>

datatype number = Finite rat | PosInfinity | NegInfinity | NaN

text \<open>Rounding a rational to the nearest integer, a tie going to the even one.\<close>

definition roundHalfEven :: "rat \<Rightarrow> int" where
  "roundHalfEven x =
     (let n = \<lfloor>x\<rfloor>; d = x - of_int n
      in if d < 1 / 2 then n else if 1 / 2 < d then n + 1 else if even n then n else n + 1)"

text \<open>
  The binary exponent of a non-zero rational, \<open>\<lfloor>log\<^sub>2 \<bar>x\<bar>\<rfloor>\<close>, computed from the bit
  length of an integer, and the exponent of the unit in the last place of the binary64
  values around \<open>x\<close>: 52 below the binary exponent, and \<open>- 1074\<close> in the subnormal
  range.
\<close>

definition ilog2 :: "rat \<Rightarrow> int" where
  "ilog2 x =
     (if 1 \<le> \<bar>x\<bar> then bitlen \<lfloor>\<bar>x\<bar>\<rfloor> - 1 else - bitlen (\<lceil>1 / \<bar>x\<bar>\<rceil> - 1))"

definition ulpExponent :: "rat \<Rightarrow> int" where
  "ulpExponent x = max (ilog2 x - 52) (- 1074)"

text \<open>
  Round to nearest, ties to even, as IEEE 754 and ECMA-262 (the Number value for a
  mathematical value) define it: the rational is rounded to a multiple of its unit in
  the last place, and a result of magnitude \<open>2 ^ 1024\<close> or more is an infinity.
\<close>

definition round64 :: "rat \<Rightarrow> number" where
  "round64 x =
     (if x = 0 then Finite 0
      else
        (let e = ulpExponent x;
             y = of_int (roundHalfEven (x / 2 powi e)) * 2 powi e
         in if 2 powi 1024 \<le> \<bar>y\<bar> then (if 0 < x then PosInfinity else NegInfinity)
            else Finite y))"

text \<open>
  The operator \<^verbatim>\<open>+\<close> on two numbers: the exact sum of two finite values, rounded; NaN
  when an operand is NaN or the operands are infinities of opposite sign; otherwise the
  infinity.
\<close>

fun add64 :: "number \<Rightarrow> number \<Rightarrow> number" where
  "add64 (Finite a) (Finite b) = round64 (a + b)"
| "add64 NaN y = NaN"
| "add64 x NaN = NaN"
| "add64 PosInfinity NegInfinity = NaN"
| "add64 NegInfinity PosInfinity = NaN"
| "add64 PosInfinity y = PosInfinity"
| "add64 x PosInfinity = PosInfinity"
| "add64 NegInfinity y = NegInfinity"
| "add64 x NegInfinity = NegInfinity"

text \<open>
  \<^verbatim>\<open>parseFloat\<close> takes the longest prefix of the trimmed string that is a decimal
  literal and returns the Number value for the decimal it denotes, NaN when there is no
  such prefix. Reading the prefix is a parameter, \<^verbatim>\<open>prefixOf\<close>, which gives the exact
  decimal value of the prefix as a rational (or \<^verbatim>\<open>Infinity\<close> with its sign).
\<close>

datatype prefix_value = NoNumber | Value rat | PlusInf | MinusInf

definition parseFloat :: "(string \<Rightarrow> prefix_value) \<Rightarrow> string \<Rightarrow> number" where
  "parseFloat prefixOf s =
     (case prefixOf s of
        NoNumber \<Rightarrow> NaN
      | Value q \<Rightarrow> round64 q
      | PlusInf \<Rightarrow> PosInfinity
      | MinusInf \<Rightarrow> NegInfinity)"

text \<open>
  The total of \<^verbatim>\<open>ExpenseManagement.tsx\<close>, line 881:
  \<^verbatim>\<open>filteredExpenses.reduce((sum, exp) => sum + parseFloat(exp.amount || '0'), 0)\<close>. The
  amount of an expense is a string; the empty string is falsy and is replaced by
  \<^verbatim>\<open>'0'\<close>.
\<close>

definition amountOrZero :: "expense \<Rightarrow> string" where
  "amountOrZero expense = (if amount_e expense = [] then ''0'' else amount_e expense)"

definition totalExpenses :: "(string \<Rightarrow> prefix_value) \<Rightarrow> expense list \<Rightarrow> number" where
  "totalExpenses prefixOf filteredExpenses =
     foldl (\<lambda>sum expense. add64 sum (parseFloat prefixOf (amountOrZero expense))) (Finite 0)
       filteredExpenses"

text \<open>
  The decimal values of a few amount strings, and an expense with a given amount.
\<close>

definition sampleAmounts :: "string \<Rightarrow> prefix_value" where
  "sampleAmounts s =
     (case map_of
        [(''0'', 0), (''0.10'', 1 / 10), (''0.20'', 1 / 5), (''0.125'', 1 / 8),
         (''100'', 100), (''250.00'', 250), (''1'', 1),
         (''9007199254740992'', 9007199254740992)] s of
        Some q \<Rightarrow> Value q
      | None \<Rightarrow> NoNumber)"

definition expenseOf :: "string \<Rightarrow> expense" where
  "expenseOf amt = sampleExpense\<lparr>amount_e := amt\<rparr>"

section \<open>Properties of the string operations\<close>

lemma str_includes_sublist: "str_includes hay needle \<longleftrightarrow> sublist needle hay"
  by (induction hay) (auto simp: sublist_Cons_right)

lemma str_includes_iff: "str_includes hay needle \<longleftrightarrow> (\<exists>ps ss. hay = ps @ needle @ ss)"
  by (simp add: str_includes_sublist sublist_def)

lemma toLowerCase_length: "length (toLowerCase s) = length s"
  by (simp add: toLowerCase_def)

lemma filterE_Inr: "filterE cb xs = Inr ys \<Longrightarrow> ys = filter (\<lambda>x. cb x = Inr True) xs"
  by (induction xs arbitrary: ys) (auto split: sum.splits if_splits)

lemma filterE_total: "(\<And>x. x \<in> set xs \<Longrightarrow> \<exists>b. cb x = Inr b) \<Longrightarrow> \<exists>ys. filterE cb xs = Inr ys"
  by (induction xs) (fastforce split: sum.splits)+

lemma filterE_Inl: "filterE cb xs = Inl e \<Longrightarrow> \<exists>x \<in> set xs. cb x = Inl e"
  by (induction xs) (auto split: sum.splits)

section \<open>Text search\<close>

lemma changed_chars:
  "filter (\<lambda>c. toLowerChar c \<noteq> c) Enum.enum = upperLetters"
  by (simp add: enum_char_def toLowerChar_def upperLetters_def)

lemma lower_of_upperLetters: "map toLowerChar upperLetters = lowerLetters"
  by (simp add: toLowerChar_def upperLetters_def lowerLetters_def)

lemma distinct_upperLetters: "distinct upperLetters"
  by (simp add: upperLetters_def)

lemma distinct_lowerLetters: "distinct lowerLetters"
  by (simp add: lowerLetters_def)

lemma upper_lower_disjoint: "set upperLetters \<inter> set lowerLetters = {}"
  by (simp add: upperLetters_def lowerLetters_def)


lemma changes_iff_upper: "toLowerChar c \<noteq> c \<longleftrightarrow> c \<in> set upperLetters"
proof -
  have "c \<in> set (filter (\<lambda>c. toLowerChar c \<noteq> c) Enum.enum) \<longleftrightarrow> toLowerChar c \<noteq> c"
    by (simp add: enum_UNIV)
  then show ?thesis
    unfolding changed_chars by simp
qed

lemma zip_letters:
  "zip upperLetters lowerLetters = map (\<lambda>u. (u, toLowerChar u)) upperLetters"
  unfolding lower_of_upperLetters [symmetric] by (simp add: zip_map2 zip_same_conv_map)

lemma in_zip_letters:
  "(c, d) \<in> set (zip upperLetters lowerLetters) \<longleftrightarrow> c \<in> set upperLetters \<and> d = toLowerChar c"
  unfolding zip_letters by auto

lemma toLowerChar_table:
  "toLowerChar c = (case map_of (zip upperLetters lowerLetters) c of Some l \<Rightarrow> l | None \<Rightarrow> c)"
proof (cases "c \<in> set upperLetters")
  case True
  then show ?thesis
    unfolding zip_letters by (simp add: map_of_map_restrict)
next
  case False
  then have "toLowerChar c = c" using changes_iff_upper by blast
  with False show ?thesis
    unfolding zip_letters by (simp add: map_of_map_restrict)
qed

lemma toLowerChar_idem: "toLowerChar (toLowerChar c) = toLowerChar c"
proof (cases "c \<in> set upperLetters")
  case True
  then have "toLowerChar c \<in> set (map toLowerChar upperLetters)" by simp
  then have "toLowerChar c \<in> set lowerLetters" by (simp only: lower_of_upperLetters)
  with upper_lower_disjoint have "toLowerChar c \<notin> set upperLetters" by blast
  then show ?thesis using changes_iff_upper by blast
next
  case False
  then have "toLowerChar c = c" using changes_iff_upper by blast
  then show ?thesis by simp
qed

lemma toLowerChar_inj_on_upper: "inj_on toLowerChar (set upperLetters)"
proof -
  have "distinct (map toLowerChar upperLetters)"
    by (simp only: lower_of_upperLetters distinct_lowerLetters)
  then show ?thesis by (simp add: distinct_map)
qed

lemma sameLetter_iff: "sameLetter c d \<longleftrightarrow> toLowerChar c = toLowerChar d"
proof
  assume "sameLetter c d"
  then consider "c = d" | "c \<in> set upperLetters \<and> d = toLowerChar c"
    | "d \<in> set upperLetters \<and> c = toLowerChar d"
    by (auto simp: sameLetter_def in_zip_letters)
  then show "toLowerChar c = toLowerChar d"
    by cases (simp_all add: toLowerChar_idem)
next
  assume eq: "toLowerChar c = toLowerChar d"
  show "sameLetter c d"
  proof (cases "c \<in> set upperLetters"; cases "d \<in> set upperLetters")
    assume "c \<in> set upperLetters" "d \<in> set upperLetters"
    with eq toLowerChar_inj_on_upper have "c = d" by (auto dest: inj_onD)
    then show ?thesis by (simp add: sameLetter_def)
  next
    assume c: "c \<in> set upperLetters" and "d \<notin> set upperLetters"
    then have "toLowerChar d = d" using changes_iff_upper by blast
    with eq c show ?thesis by (simp add: sameLetter_def in_zip_letters)
  next
    assume "c \<notin> set upperLetters" and d: "d \<in> set upperLetters"
    then have "toLowerChar c = c" using changes_iff_upper by blast
    with eq d show ?thesis by (simp add: sameLetter_def in_zip_letters)
  next
    assume "c \<notin> set upperLetters" "d \<notin> set upperLetters"
    then have "toLowerChar c = c" "toLowerChar d = d" using changes_iff_upper by blast+
    with eq show ?thesis by (simp add: sameLetter_def)
  qed
qed

lemma toLowerCase_eq_iff: "toLowerCase s = toLowerCase t \<longleftrightarrow> list_all2 sameLetter s t"
proof -
  have "toLowerCase s = toLowerCase t \<longleftrightarrow> list_all2 (=) (map toLowerChar s) (map toLowerChar t)"
    by (simp add: toLowerCase_def list.rel_eq)
  also have "\<dots> \<longleftrightarrow> list_all2 (\<lambda>c d. toLowerChar c = toLowerChar d) s t"
    by (simp add: list.rel_map)
  finally show ?thesis by (simp add: sameLetter_iff [abs_def])
qed

lemma str_includes_ignoring_case:
  "str_includes (toLowerCase field) (toLowerCase searchTerm) \<longleftrightarrow>
     (\<exists>before mid after. field = before @ mid @ after \<and> list_all2 sameLetter mid searchTerm)"
proof -
  have "str_includes (toLowerCase field) (toLowerCase searchTerm) \<longleftrightarrow>
          (\<exists>ps ss. toLowerCase field = ps @ toLowerCase searchTerm @ ss)"
    by (rule str_includes_iff)
  also have "\<dots> \<longleftrightarrow> (\<exists>before mid after. field = before @ mid @ after
                  \<and> toLowerCase mid = toLowerCase searchTerm)"
    unfolding toLowerCase_def by (auto simp: map_eq_append_conv append_eq_map_conv) metis+
  finally show ?thesis by (simp add: toLowerCase_eq_iff)
qed

lemma toLowerCase_table:
  "toLowerCase s =
     map (\<lambda>c. case map_of (zip upperLetters lowerLetters) c of Some l \<Rightarrow> l | None \<Rightarrow> c) s"
  unfolding toLowerCase_def by (rule map_cong [OF refl]) (rule toLowerChar_table)

lemma toLowerCase_lowerLetters: "toLowerCase lowerLetters = lowerLetters"
  unfolding toLowerCase_def lower_of_upperLetters [symmetric]
  by (simp add: toLowerChar_idem)

lemma matchesSearch_ignoring_case:
  "matchesSearch activity term \<longleftrightarrow>
     (\<exists>field \<in> {customerName activity, referenceNumber activity, description activity}.
        \<exists>before mid after. field = before @ mid @ after \<and> list_all2 sameLetter mid term)"
  by (simp add: matchesSearch_def str_includes_ignoring_case)

text \<open>
  C7. On the customer-activity page a record matches the search text exactly when the
  lower-cased search text occurs as a contiguous substring of the lower-cased customer
  name, reference number or description. Lower-casing replaces each capital letter of
  \<^const>\<open>upperLetters\<close> by the small letter at the same position of
  \<^const>\<open>lowerLetters\<close> and keeps every other code unit, so two strings have the same
  lower-casing exactly when they are the same letter by letter, ignoring case; hence a
  record matches exactly when one of the three fields contains a contiguous part that
  is the search text letter by letter, ignoring case. In particular the text
  \<^verbatim>\<open>abc\<close> matches any record whose customer name is \<^verbatim>\<open>ABC Transport\<close>, the text
  \<^verbatim>\<open>ABC\<close> matches the name \<^verbatim>\<open>abc transport\<close>, the accented capital U+00C9 matches
  its small letter U+00E9, and \<^verbatim>\<open>abc\<close> matches neither a record named \<^verbatim>\<open>XYZ Co\<close>
  nor one named \<^verbatim>\<open>A-B-C Transport\<close> whose reference and description do not contain
  it either.
\<close>

theorem matchesSearch_case_insensitive_substring:
  "(matchesSearch activity term \<longleftrightarrow>
      (\<exists>field \<in> {customerName activity, referenceNumber activity, description activity}.
         \<exists>before after. toLowerCase field = before @ toLowerCase term @ after))
   \<and> (matchesSearch activity term \<longleftrightarrow>
      (\<exists>field \<in> {customerName activity, referenceNumber activity, description activity}.
         \<exists>before mid after. field = before @ mid @ after \<and> list_all2 sameLetter mid term))
   \<and> toLowerCase s =
       map (\<lambda>c. case map_of (zip upperLetters lowerLetters) c of Some l \<Rightarrow> l | None \<Rightarrow> c) s
   \<and> toLowerCase upperLetters = lowerLetters
   \<and> toLowerCase lowerLetters = lowerLetters
   \<and> (toLowerCase s = toLowerCase t \<longleftrightarrow> list_all2 sameLetter s t)
   \<and> matchesSearch (activity\<lparr>customerName := ''ABC Transport''\<rparr>) ''abc''
   \<and> matchesSearch (activity\<lparr>customerName := ''abc transport''\<rparr>) ''ABC''
   \<and> matchesSearch (activity\<lparr>customerName := ''CAF'' @ [CHR 0xC9]\<rparr>) (''caf'' @ [CHR 0xE9])
   \<and> \<not> matchesSearch
         (activity\<lparr>customerName := ''XYZ Co'', referenceNumber := ''INV-1001'',
                    description := ''Diesel sale''\<rparr>) ''abc''
   \<and> \<not> matchesSearch
         (activity\<lparr>customerName := ''A-B-C Transport'', referenceNumber := ''INV-1001'',
                    description := ''Diesel sale''\<rparr>) ''abc''"
proof (intro conjI)
  show "matchesSearch activity term \<longleftrightarrow>
      (\<exists>field \<in> {customerName activity, referenceNumber activity, description activity}.
         \<exists>before after. toLowerCase field = before @ toLowerCase term @ after)"
    by (simp add: matchesSearch_def str_includes_iff)
  show "matchesSearch activity term \<longleftrightarrow>
      (\<exists>field \<in> {customerName activity, referenceNumber activity, description activity}.
         \<exists>before mid after. field = before @ mid @ after \<and> list_all2 sameLetter mid term)"
    by (rule matchesSearch_ignoring_case)
  show "toLowerCase s =
       map (\<lambda>c. case map_of (zip upperLetters lowerLetters) c of Some l \<Rightarrow> l | None \<Rightarrow> c) s"
    by (rule toLowerCase_table)
  show "toLowerCase upperLetters = lowerLetters"
    by (simp add: toLowerCase_def lower_of_upperLetters)
  show "toLowerCase lowerLetters = lowerLetters"
    by (rule toLowerCase_lowerLetters)
  show "toLowerCase s = toLowerCase t \<longleftrightarrow> list_all2 sameLetter s t"
    by (rule toLowerCase_eq_iff)
  show "matchesSearch (activity\<lparr>customerName := ''ABC Transport''\<rparr>) ''abc''"
    by (simp add: matchesSearch_def toLowerCase_def toLowerChar_def)
  show "matchesSearch (activity\<lparr>customerName := ''abc transport''\<rparr>) ''ABC''"
    by (simp add: matchesSearch_def toLowerCase_def toLowerChar_def)
  show "matchesSearch (activity\<lparr>customerName := ''CAF'' @ [CHR 0xC9]\<rparr>) (''caf'' @ [CHR 0xE9])"
    by (simp add: matchesSearch_def toLowerCase_def toLowerChar_def)
  show "\<not> matchesSearch
         (activity\<lparr>customerName := ''XYZ Co'', referenceNumber := ''INV-1001'',
                    description := ''Diesel sale''\<rparr>) ''abc''"
    by (simp add: matchesSearch_def toLowerCase_def toLowerChar_def)
  show "\<not> matchesSearch
         (activity\<lparr>customerName := ''A-B-C Transport'', referenceNumber := ''INV-1001'',
                    description := ''Diesel sale''\<rparr>) ''abc''"
    by (simp add: matchesSearch_def toLowerCase_def toLowerChar_def)
qed

section \<open>Running balances\<close>

lemma runningBalances_length: "length (runningBalances bal es) = length es"
  by (induction es arbitrary: bal) auto

lemma runningBalances_afterEvent: "map afterEvent (runningBalances bal es) = es"
  by (induction es arbitrary: bal) auto

lemma runningBalances_step:
  "i < length es \<Longrightarrow>
     runningBalance (runningBalances bal es ! i) =
       (if i = 0 then bal else runningBalance (runningBalances bal es ! (i - 1)))
         + signedAmount (es ! i)"
proof (induction es arbitrary: bal i)
  case Nil
  then show ?case by simp
next
  case (Cons e es)
  show ?case
  proof (cases i)
    case 0
    then show ?thesis by simp
  next
    case (Suc j)
    with Cons.prems have j: "j < length es" by simp
    from Cons.IH [OF j, of "bal + signedAmount e"] Suc show ?thesis
      by (cases j) simp_all
  qed
qed

lemma runningBalances_last:
  "es \<noteq> [] \<Longrightarrow>
     runningBalance (last (runningBalances bal es)) = bal + sum_list (map signedAmount es)"
proof (induction es arbitrary: bal)
  case Nil
  then show ?case by simp
next
  case (Cons e es)
  show ?case
  proof (cases "es = []")
    case True
    then show ?thesis by simp
  next
    case False
    then have "runningBalances (bal + signedAmount e) es \<noteq> []"
      by (cases es) simp_all
    with Cons.IH [OF False, of "bal + signedAmount e"] show ?thesis
      by (simp add: add.assoc)
  qed
qed

text \<open>
  C1. The running-balance fold: the result has one snapshot per event, in the order of
  the events; the balance after the first event is the opening balance plus its signed
  amount, and the balance after every later event is the balance after the event before
  it plus its signed amount; for a non-empty sequence the last balance is the opening
  balance plus the sum of all signed amounts. This holds for every sequence, in
  particular for one sorted by timestamp, and for every opening balance.
\<close>

theorem runningBalances_fold:
  "length (runningBalances opening events) = length events
   \<and> map afterEvent (runningBalances opening events) = events
   \<and> (\<forall>i < length events.
         runningBalance (runningBalances opening events ! i) =
           (if i = 0 then opening
            else runningBalance (runningBalances opening events ! (i - 1)))
             + signedAmount (events ! i))
   \<and> (events \<noteq> [] \<longrightarrow>
         runningBalance (last (runningBalances opening events)) =
           opening + sum_list (map signedAmount events))"
  using runningBalances_length runningBalances_afterEvent runningBalances_step runningBalances_last
  by blast

theorem runningBalances_fold_witness:
  "sorted (map timestamp exampleEvents)
   \<and> exampleEvents \<noteq> []
   \<and> (2::nat) < length exampleEvents
   \<and> map runningBalance (runningBalances 0 exampleEvents) = [100, 60, 85]
   \<and> runningBalance (runningBalances 0 exampleEvents ! 2) =
       runningBalance (runningBalances 0 exampleEvents ! 1) + signedAmount (exampleEvents ! 2)
   \<and> runningBalance (last (runningBalances 0 exampleEvents)) =
       0 + sum_list (map signedAmount exampleEvents)"
proof -
  have ne: "exampleEvents \<noteq> []" and len: "(2::nat) < length exampleEvents"
    by (simp_all add: exampleEvents_def)
  from runningBalances_fold [of 0 exampleEvents] ne len
  have "runningBalance (runningBalances 0 exampleEvents ! 2) =
          runningBalance (runningBalances 0 exampleEvents ! 1) + signedAmount (exampleEvents ! 2)"
    and "runningBalance (last (runningBalances 0 exampleEvents)) =
          0 + sum_list (map signedAmount exampleEvents)"
    by auto
  moreover have "sorted (map timestamp exampleEvents)"
    and "map runningBalance (runningBalances 0 exampleEvents) = [100, 60, 85]"
    by (simp_all add: exampleEvents_def signedAmount_def)
  ultimately show ?thesis using ne len by simp
qed

section \<open>Aging buckets partition the outstanding amount\<close>

lemma inBucket_bucketOf: "inBucket l age \<longleftrightarrow> bucketOf age = l"
  by (cases l) (auto simp: inBucket_def bucketOf_def)

lemma inBucket_unique: "\<exists>!l. inBucket l age"
  by (simp add: inBucket_bucketOf)

lemma bucketAmount_addToBucket:
  "bucketAmount (addToBucket b item) l =
     bucketAmount b l + (if inBucket l (snd item) then fst item else 0)"
  by (cases item; cases l; cases "bucketOf (snd item)") (auto simp: inBucket_bucketOf)

lemma bucketCount_addToBucket:
  "bucketCount (addToBucket b item) l =
     bucketCount b l + (if inBucket l (snd item) then 1 else 0)"
  by (cases item; cases l; cases "bucketOf (snd item)") (auto simp: inBucket_bucketOf)

lemma bucketAmount_foldl:
  "bucketAmount (foldl addToBucket b items) l =
     bucketAmount b l + sum_list (map fst (filter (\<lambda>item. inBucket l (snd item)) items))"
  by (induction items arbitrary: b) (simp_all add: bucketAmount_addToBucket)

lemma bucketCount_foldl:
  "bucketCount (foldl addToBucket b items) l =
     bucketCount b l + length (filter (\<lambda>item. inBucket l (snd item)) items)"
  by (induction items arbitrary: b) (simp_all add: bucketCount_addToBucket)

lemma totalOutstanding_addToBucket:
  "totalOutstanding (addToBucket b item) = totalOutstanding b + fst item"
  by (cases item; cases "bucketOf (snd item)") (auto simp: totalOutstanding_def)

lemma totalOutstanding_foldl:
  "totalOutstanding (foldl addToBucket b items) = totalOutstanding b + sum_list (map fst items)"
  by (induction items arbitrary: b) (simp_all add: totalOutstanding_addToBucket)

lemma totalCount_addToBucket: "totalCount (addToBucket b item) = Suc (totalCount b)"
  by (cases item; cases "bucketOf (snd item)") (auto simp: totalCount_def)

lemma totalCount_foldl: "totalCount (foldl addToBucket b items) = totalCount b + length items"
  by (induction items arbitrary: b) (simp_all add: totalCount_addToBucket)

lemma bucketAmount_empty: "bucketAmount emptyBuckets l = 0"
  by (cases l) (simp_all add: emptyBuckets_def)

lemma bucketCount_empty: "bucketCount emptyBuckets l = 0"
  by (cases l) (simp_all add: emptyBuckets_def)

text \<open>
  C2. Every age lies in exactly one bucket: current below 30 days (negative ages
  included), then 30 to 59, 60 to 89, and 90 or more. Each bucket holds the sum and the
  number of the items whose age lies in it, so the four amounts add up to the sum of all
  input amounts and the four counts to the number of items. The spec's example is the
  last conjunct.
\<close>

theorem aging_buckets_partition:
  "(\<exists>!l. inBucket l age)
   \<and> inBucket (bucketOf age) age
   \<and> (bucketOf age = Current \<longleftrightarrow> age < 30)
   \<and> (bucketOf age = Days30to59 \<longleftrightarrow> 30 \<le> age \<and> age < 60)
   \<and> (bucketOf age = Days60to89 \<longleftrightarrow> 60 \<le> age \<and> age < 90)
   \<and> (bucketOf age = Days90plus \<longleftrightarrow> 90 \<le> age)
   \<and> bucketAmount (bucketize items) l =
       sum_list (map fst (filter (\<lambda>item. inBucket l (snd item)) items))
   \<and> bucketCount (bucketize items) l =
       length (filter (\<lambda>item. inBucket l (snd item)) items)
   \<and> current (bucketize items) + days30to59 (bucketize items)
       + days60to89 (bucketize items) + days90plus (bucketize items) =
       sum_list (map fst items)
   \<and> currentCount (bucketize items) + days30to59Count (bucketize items)
       + days60to89Count (bucketize items) + days90plusCount (bucketize items) =
       length items
   \<and> bucketize [(500, 10), (300, 45), (200, 95)] =
       \<lparr>current = 500, days30to59 = 300, days60to89 = 0, days90plus = 200,
        currentCount = 1, days30to59Count = 1, days60to89Count = 0, days90plusCount = 1\<rparr>"
proof (intro conjI)
  show "\<exists>!l. inBucket l age" by (rule inBucket_unique)
  show "inBucket (bucketOf age) age" by (simp add: inBucket_bucketOf)
  show "bucketOf age = Current \<longleftrightarrow> age < 30" by (simp add: bucketOf_def)
  show "bucketOf age = Days30to59 \<longleftrightarrow> 30 \<le> age \<and> age < 60" by (simp add: bucketOf_def)
  show "bucketOf age = Days60to89 \<longleftrightarrow> 60 \<le> age \<and> age < 90" by (auto simp add: bucketOf_def)
  show "bucketOf age = Days90plus \<longleftrightarrow> 90 \<le> age" by (auto simp add: bucketOf_def)
  show "bucketAmount (bucketize items) l =
       sum_list (map fst (filter (\<lambda>item. inBucket l (snd item)) items))"
    by (simp add: bucketize_def bucketAmount_foldl bucketAmount_empty)
  show "bucketCount (bucketize items) l =
       length (filter (\<lambda>item. inBucket l (snd item)) items)"
    by (simp add: bucketize_def bucketCount_foldl bucketCount_empty)
  have "totalOutstanding (bucketize items) = sum_list (map fst items)"
    by (simp add: bucketize_def totalOutstanding_foldl) (simp add: totalOutstanding_def emptyBuckets_def)
  then show "current (bucketize items) + days30to59 (bucketize items)
       + days60to89 (bucketize items) + days90plus (bucketize items) =
       sum_list (map fst items)"
    by (simp add: totalOutstanding_def)
  have "totalCount (bucketize items) = length items"
    by (simp add: bucketize_def totalCount_foldl) (simp add: totalCount_def emptyBuckets_def)
  then show "currentCount (bucketize items) + days30to59Count (bucketize items)
       + days60to89Count (bucketize items) + days90plusCount (bucketize items) =
       length items"
    by (simp add: totalCount_def)
  show "bucketize [(500, 10), (300, 45), (200, 95)] =
       \<lparr>current = 500, days30to59 = 300, days60to89 = 0, days90plus = 200,
        currentCount = 1, days30to59Count = 1, days60to89Count = 0, days90plusCount = 1\<rparr>"
    by (simp add: bucketize_def emptyBuckets_def bucketOf_def)
qed

section \<open>Date range and type filters\<close>


lemma isoDay_missing: "field = None \<or> field = Some [] \<Longrightarrow> isoDay isoOf field = Inr []"
  by (auto simp: isoDay_def)

lemma matchesDateRange_Inr:
  "isoDay isoOf field = Inr day \<Longrightarrow>
     matchesDateRange isoOf fromDate toDate field = Inr (dateRangeSpec fromDate toDate day)"
  by (auto simp: matchesDateRange_def dateRangeSpec_def Let_def)




section \<open>Records without a date\<close>

lemma nil_less_iff: "[] < (d::string) \<longleftrightarrow> d \<noteq> []"
  by (cases d) simp_all

lemma matchesDateRange_missing:
  "field = None \<or> field = Some [] \<Longrightarrow>
     matchesDateRange isoOf fromDate toDate field = Inr (fromDate = [])"
  by (auto simp: matchesDateRange_def isoDay_def Let_def nil_less_iff)

text \<open>
  C9. A record whose date field is missing or empty has the empty string as its day,
  which is below every non-empty bound. On the customer-activity and payment-history
  pages such a record is therefore rejected whenever a from-date is supplied, and when
  only a to-date is supplied the date condition lets it through: the callback then
  returns the conjunction of the text and type (or method) conditions alone.
\<close>
theorem missing_date_filtered_asymmetrically:
  "(date activity = None \<or> date activity = Some [] \<longrightarrow>
      isoDay isoOf (date activity) = Inr []
    \<and> (fromDate \<noteq> [] \<longrightarrow>
         [] < fromDate
       \<and> keepActivity isoOf searchTerm typeFilter fromDate toDate activity = Inr False)
    \<and> (fromDate = [] \<and> toDate \<noteq> [] \<longrightarrow>
         keepActivity isoOf searchTerm typeFilter fromDate toDate activity =
           Inr (matchesSearch activity searchTerm \<and> matchesType activity typeFilter)))
   \<and> (paymentDate payment = None \<or> paymentDate payment = Some [] \<longrightarrow>
      (fromDate \<noteq> [] \<longrightarrow>
         keepPayment isoOf searchTerm methodFilter fromDate toDate payment = Inr False)
    \<and> (fromDate = [] \<and> toDate \<noteq> [] \<longrightarrow>
         keepPayment isoOf searchTerm methodFilter fromDate toDate payment =
           Inr (truthy (matchesSearch_p payment searchTerm) \<and> matchesMethod payment methodFilter)))"
proof (intro conjI impI)
  assume a: "date activity = None \<or> date activity = Some []"
  show "isoDay isoOf (date activity) = Inr []"
    using a by (rule isoDay_missing)
  {
    assume f: "fromDate \<noteq> []"
    show "[] < fromDate" using f by (simp add: nil_less_iff)
    show "keepActivity isoOf searchTerm typeFilter fromDate toDate activity = Inr False"
      using f by (simp add: keepActivity_def matchesDateRange_missing [OF a])
  }
  {
    assume f: "fromDate = [] \<and> toDate \<noteq> []"
    show "keepActivity isoOf searchTerm typeFilter fromDate toDate activity =
           Inr (matchesSearch activity searchTerm \<and> matchesType activity typeFilter)"
      using f by (simp add: keepActivity_def matchesDateRange_missing [OF a])
  }
next
  assume a: "paymentDate payment = None \<or> paymentDate payment = Some []"
  {
    assume f: "fromDate \<noteq> []"
    show "keepPayment isoOf searchTerm methodFilter fromDate toDate payment = Inr False"
      using f by (simp add: keepPayment_def matchesDateRange_missing [OF a] js_and_def)
  }
  {
    assume f: "fromDate = [] \<and> toDate \<noteq> []"
    show "keepPayment isoOf searchTerm methodFilter fromDate toDate payment =
           Inr (truthy (matchesSearch_p payment searchTerm) \<and> matchesMethod payment methodFilter)"
      using f by (simp add: keepPayment_def matchesDateRange_missing [OF a] js_and_def)
  }
qed

theorem missing_date_filtered_asymmetrically_witness:
  "date undatedActivity = None
   \<and> ''2024-01-01'' \<noteq> []
   \<and> keepActivity sampleDates [] ''all'' ''2024-01-01'' [] undatedActivity = Inr False
   \<and> keepActivity sampleDates [] ''all'' ''2024-01-01'' ''2024-12-31'' undatedActivity = Inr False
   \<and> keepActivity sampleDates [] ''all'' [] ''2024-12-31'' undatedActivity = Inr True
   \<and> paymentDate (samplePayment\<lparr>paymentDate := Some [], notes_p := Some ''cheque''\<rparr>) = Some []
   \<and> keepPayment sampleDates [] ''all'' ''2024-01-01'' []
        (samplePayment\<lparr>paymentDate := Some [], notes_p := Some ''cheque''\<rparr>) = Inr False
   \<and> keepPayment sampleDates [] ''all'' [] ''2024-12-31''
        (samplePayment\<lparr>paymentDate := Some [], notes_p := Some ''cheque''\<rparr>) = Inr True"
proof -
  let ?p = "samplePayment\<lparr>paymentDate := Some [], notes_p := Some ''cheque''\<rparr>"
  have a: "date undatedActivity = None" and p: "paymentDate ?p = Some []"
    by (simp_all add: undatedActivity_def)
  have m: "matchesSearch undatedActivity [] \<and> matchesType undatedActivity ''all''"
    by (simp add: undatedActivity_def sampleActivity_def matchesSearch_def matchesType_def
        toLowerCase_def)
  have mp: "truthy (matchesSearch_p ?p []) \<and> matchesMethod ?p ''all''"
    by (simp add: samplePayment_def matchesSearch_p_def matchesMethod_def opt_includes_def
        js_or_def toLowerCase_def)
  note asym = missing_date_filtered_asymmetrically [where activity = undatedActivity
      and payment = ?p and isoOf = sampleDates and searchTerm = "[]" and typeFilter = "''all''"
      and methodFilter = "''all''"]
  from asym [of "''2024-01-01''" "[]"] a p
  have 1: "keepActivity sampleDates [] ''all'' ''2024-01-01'' [] undatedActivity = Inr False"
    and 2: "keepPayment sampleDates [] ''all'' ''2024-01-01'' [] ?p = Inr False"
    by simp_all
  from asym [of "''2024-01-01''" "''2024-12-31''"] a
  have 3: "keepActivity sampleDates [] ''all'' ''2024-01-01'' ''2024-12-31'' undatedActivity = Inr False"
    by simp
  from asym [of "[]" "''2024-12-31''"] a p m mp
  have 4: "keepActivity sampleDates [] ''all'' [] ''2024-12-31'' undatedActivity = Inr True"
    and 5: "keepPayment sampleDates [] ''all'' [] ''2024-12-31'' ?p = Inr True"
    by simp_all
  from a p 1 2 3 4 5 show ?thesis by simp
qed

section \<open>Records without searchable text\<close>

lemma opt_includes_None: "opt_includes None searchTerm = JUndefined"
  by (simp add: opt_includes_def)

lemma filterE_subset: "filterE cb xs = Inr ys \<Longrightarrow> x \<in> set ys \<Longrightarrow> cb x = Inr True"
  by (drule filterE_Inr) simp

text \<open>
  C10. A payment with neither reference number nor notes, and an expense with neither
  description nor receipt number, has the text condition \<^verbatim>\<open>undefined\<close> for every
  search text, the empty one included; the callback never returns a truthy value for
  it, so it is in no filtered result.
\<close>
theorem absent_search_fields_excluded:
  "(referenceNumber_p payment = None \<and> notes_p payment = None \<longrightarrow>
      matchesSearch_p payment searchTerm = JUndefined
    \<and> keepPayment isoOf searchTerm methodFilter fromDate toDate payment \<noteq> Inr True
    \<and> (\<forall>kept. filterPayments isoOf searchTerm methodFilter fromDate toDate payments = Inr kept
          \<longrightarrow> payment \<notin> set kept))
   \<and> (description_e expense = None \<and> receiptNumber expense = None \<longrightarrow>
      matchesSearch_e expense searchTerm = JUndefined
    \<and> keepExpense isoOf searchTerm categoryFilter fromDate toDate expense \<noteq> Inr True
    \<and> (\<forall>kept. filterExpenses isoOf searchTerm categoryFilter fromDate toDate expenses = Inr kept
          \<longrightarrow> expense \<notin> set kept))"
proof (intro conjI impI allI)
  assume a: "referenceNumber_p payment = None \<and> notes_p payment = None"
  then show u: "matchesSearch_p payment searchTerm = JUndefined"
    by (simp add: matchesSearch_p_def opt_includes_None js_or_def)
  then show k: "keepPayment isoOf searchTerm methodFilter fromDate toDate payment \<noteq> Inr True"
    by (simp add: keepPayment_def js_and_def split: sum.splits)
  fix kept
  assume "filterPayments isoOf searchTerm methodFilter fromDate toDate payments = Inr kept"
  then show "payment \<notin> set kept"
    using k filterE_subset unfolding filterPayments_def by fastforce
next
  assume a: "description_e expense = None \<and> receiptNumber expense = None"
  then show u: "matchesSearch_e expense searchTerm = JUndefined"
    by (simp add: matchesSearch_e_def opt_includes_None js_or_def)
  then show k: "keepExpense isoOf searchTerm categoryFilter fromDate toDate expense \<noteq> Inr True"
    by (simp add: keepExpense_def js_and_def split: sum.splits)
  fix kept
  assume "filterExpenses isoOf searchTerm categoryFilter fromDate toDate expenses = Inr kept"
  then show "expense \<notin> set kept"
    using k filterE_subset unfolding filterExpenses_def by fastforce
qed

theorem absent_search_fields_excluded_witness:
  "referenceNumber_p samplePayment = None \<and> notes_p samplePayment = None
   \<and> filterPayments sampleDates [] ''all'' [] []
        [samplePayment, samplePayment\<lparr>id_p := ''p2'', notes_p := Some ''cheque''\<rparr>] =
       Inr [samplePayment\<lparr>id_p := ''p2'', notes_p := Some ''cheque''\<rparr>]
   \<and> samplePayment \<notin> set [samplePayment\<lparr>id_p := ''p2'', notes_p := Some ''cheque''\<rparr>]
   \<and> matchesSearch_p samplePayment [] = JUndefined
   \<and> description_e sampleExpense = None \<and> receiptNumber sampleExpense = None
   \<and> filterExpenses sampleDates [] ''all'' [] [] [sampleExpense] = Inr []
   \<and> sampleExpense \<notin> set []"
proof -
  let ?q = "samplePayment\<lparr>id_p := ''p2'', notes_p := Some ''cheque''\<rparr>"
  have a: "referenceNumber_p samplePayment = None \<and> notes_p samplePayment = None"
    and b: "description_e sampleExpense = None \<and> receiptNumber sampleExpense = None"
    by (simp_all add: samplePayment_def sampleExpense_def)
  have fp: "filterPayments sampleDates [] ''all'' [] [] [samplePayment, ?q] = Inr [?q]"
    by (simp add: filterPayments_def keepPayment_def matchesDateRange_def matchesSearch_p_def
        matchesMethod_def opt_includes_def js_or_def js_and_def samplePayment_def toLowerCase_def)
  have fe: "filterExpenses sampleDates [] ''all'' [] [] [sampleExpense] = Inr []"
    by (simp add: filterExpenses_def keepExpense_def matchesDateRange_e_def matchesSearch_e_def
        matchesCategory_def opt_includes_def js_or_def js_and_def sampleExpense_def)
  from absent_search_fields_excluded [of samplePayment "[]" sampleDates "''all''" "[]" "[]"
      "[samplePayment, ?q]" sampleExpense "''all''" "[sampleExpense]"] a b fp fe
  have "samplePayment \<notin> set [?q]" and "matchesSearch_p samplePayment [] = JUndefined"
    and "sampleExpense \<notin> set []"
    by simp_all
  with a b fp fe show ?thesis by simp
qed

section \<open>Exceptions and impossible ranges\<close>

lemma keepActivity_total:
  "isoDay isoOf (date a) = Inr day \<Longrightarrow>
     \<exists>b. keepActivity isoOf searchTerm typeFilter fromDate toDate a = Inr b"
  by (simp add: keepActivity_def matchesDateRange_Inr)

lemma impossible_range_excludes:
  assumes "toDate < fromDate" and "toDate \<noteq> []" and "isoDay isoOf (date a) = Inr day"
  shows "keepActivity isoOf searchTerm typeFilter fromDate toDate a = Inr False"
proof -
  from assms(1,2) have f: "fromDate \<noteq> []" by auto
  from assms(1) have "\<not> (fromDate \<le> day \<and> day \<le> toDate)" by auto
  with f assms(2) have "dateRangeSpec fromDate toDate day = False"
    by (simp add: dateRangeSpec_def)
  then show ?thesis
    by (simp add: keepActivity_def matchesDateRange_Inr [OF assms(3)])
qed

lemma filterE_all_False:
  "(\<And>x. x \<in> set xs \<Longrightarrow> cb x = Inr False) \<Longrightarrow> filterE cb xs = Inr []"
  by (induction xs) simp_all

lemma impossible_range_empty_when_dates_parse:
  assumes "toDate_st s < fromDate_st s" and "toDate_st s \<noteq> []"
    and "\<And>a. a \<in> set (activities s) \<Longrightarrow> \<exists>day. isoDay isoOf (date a) = Inr day"
  shows "filterActivities isoOf s = Inr (s\<lparr>filteredActivities := []\<rparr>)"
proof -
  have "filterE (keepActivity isoOf (searchTerm_st s) (typeFilter_st s) (fromDate_st s) (toDate_st s))
          (activities s) = Inr []"
    using assms by (intro filterE_all_False) (auto intro: impossible_range_excludes)
  then show ?thesis by (simp add: filterActivities_def)
qed

lemma inISODateRange_impossible: "toISO < fromISO \<Longrightarrow> \<not> inISODateRange dateISO fromISO toISO"
  by (auto simp: inISODateRange_def)

lemma filterActivities_total_when_dates_parse:
  assumes "\<And>a. a \<in> set (activities s) \<Longrightarrow> \<exists>day. isoDay isoOf (date a) = Inr day"
  shows "\<exists>s'. filterActivities isoOf s = Inr s'"
proof -
  have "\<exists>ys. filterE (keepActivity isoOf (searchTerm_st s) (typeFilter_st s) (fromDate_st s) (toDate_st s))
          (activities s) = Inr ys"
    using assms by (intro filterE_total) (auto intro: keepActivity_total)
  then show ?thesis by (auto simp: filterActivities_def)
qed

lemma toISODate_invalid: "localDay s = None \<Longrightarrow> toISODate localDay (Some s) = []"
  by (simp add: toISODate_def)

text \<open>
  C3. With a date bound supplied, a record whose date is the non-empty string
  \<^verbatim>\<open>not-a-date\<close> makes the filter of the customer-activity page, of the expense page
  and of the payment-history page end in a \<^verbatim>\<open>RangeError\<close> instead of a result.
\<close>
theorem unparseable_date_raises_RangeError:
  "filterActivities sampleDates
     \<lparr>searchTerm_st = [], typeFilter_st = ''all'', fromDate_st = ''2024-01-01'', toDate_st = [],
      activities = [sampleActivity, unparseableActivity], filteredActivities = []\<rparr>
     = Inl RangeError
   \<and> filterExpenses sampleDates [] ''all'' ''2024-01-01'' ''2024-12-31''
       [sampleExpense\<lparr>expenseDate := Some ''not-a-date''\<rparr>] = Inl RangeError
   \<and> filterPayments sampleDates [] ''all'' [] ''2024-12-31''
       [samplePayment\<lparr>paymentDate := Some ''not-a-date''\<rparr>] = Inl RangeError"
  by (simp add: filterActivities_def filterExpenses_def filterPayments_def keepActivity_def
      keepExpense_def keepPayment_def matchesDateRange_def matchesDateRange_e_def isoDay_def
      sampleDates_def sampleActivity_def unparseableActivity_def sampleExpense_def samplePayment_def)

text \<open>
  C5. With the from-date after the to-date, the customer-activity filter ends in a
  \<^verbatim>\<open>RangeError\<close> on a record whose date does not parse; on records whose dates parse
  or are missing it stores the empty list.
\<close>
theorem impossible_range_raises_on_unparseable_date:
  "''2024-01-01'' < ''2024-02-01''
   \<and> filterActivities sampleDates
       \<lparr>searchTerm_st = [], typeFilter_st = ''all'', fromDate_st = ''2024-02-01'',
        toDate_st = ''2024-01-01'', activities = [unparseableActivity], filteredActivities = []\<rparr>
       = Inl RangeError
   \<and> filterActivities sampleDates
       \<lparr>searchTerm_st = [], typeFilter_st = ''all'', fromDate_st = ''2024-02-01'',
        toDate_st = ''2024-01-01'', activities = [sampleActivity, undatedActivity],
        filteredActivities = [sampleActivity]\<rparr>
       = Inr \<lparr>searchTerm_st = [], typeFilter_st = ''all'', fromDate_st = ''2024-02-01'',
        toDate_st = ''2024-01-01'', activities = [sampleActivity, undatedActivity],
        filteredActivities = []\<rparr>"
  by (simp add: filterActivities_def keepActivity_def matchesDateRange_def isoDay_def
      sampleDates_def sampleActivity_def unparseableActivity_def undatedActivity_def)

section \<open>The filter effect on the store\<close>

lemma recordArray_refs:
  assumes "recordArray h r"
  shows "r < length h" and "h ! r = Array (refsAt h r)" and "list_all (isRecordRef h) (refsAt h r)"
  using assms by (auto simp: recordArray_def refsAt_def split: obj.splits)

lemma records_wf:
  "list_all (isRecordRef h) xs \<Longrightarrow>
     list_all2 (\<lambda>x a. x < length h \<and> h ! x = Record a) xs (records h xs)"
  by (induction xs) (auto simp: isRecordRef_def split: obj.splits)

lemma records_grow:
  "list_all (isRecordRef h) xs \<Longrightarrow> records (h @ ext) xs = records h xs"
  by (induction xs) (auto simp: isRecordRef_def nth_append split: obj.splits)

lemma isRecordRef_grow: "isRecordRef h x \<Longrightarrow> isRecordRef (h @ ext) x"
  by (auto simp: isRecordRef_def nth_append)

lemma recordArray_grow: "recordArray h r \<Longrightarrow> recordArray (h @ ext) r"
  by (auto simp: recordArray_def nth_append list_all_iff isRecordRef_grow split: obj.splits)

lemma refsAt_grow: "r < length h \<Longrightarrow> refsAt (h @ ext) r = refsAt h r"
  by (simp add: refsAt_def nth_append)

lemma recordsAt_grow: "recordArray h r \<Longrightarrow> recordsAt (h @ ext) r = recordsAt h r"
  by (simp add: recordsAt_def refsAt_grow recordArray_refs records_grow)

lemma recordArray_fresh:
  "list_all (isRecordRef h) ys \<Longrightarrow> recordArray (h @ [Array ys]) (length h)"
  by (auto simp: recordArray_def list_all_iff isRecordRef_grow)

lemma recordsAt_fresh:
  "list_all (isRecordRef h) ys \<Longrightarrow> recordsAt (h @ [Array ys]) (length h) = records h ys"
  by (simp add: recordsAt_def refsAt_def records_grow)

lemma keptBefore_subset:
  "length xs = length recs \<Longrightarrow> set (keptBefore p (zip xs recs)) \<subseteq> set xs"
  by (induction xs recs rule: list_induct2) (auto split: sum.splits)

lemma keptBefore_records:
  "list_all2 (\<lambda>x a. x < length h \<and> h ! x = Record a) xs recs \<Longrightarrow>
   filterE p recs = Inr kept \<Longrightarrow> records h (keptBefore p (zip xs recs)) = kept"
  by (induction xs recs arbitrary: kept rule: list_all2_induct)
     (auto split: sum.splits if_splits)

lemma filterE_pred: "filterE (\<lambda>a. Inr (q a)) xs = Inr (filter q xs)"
  by (induction xs) simp_all

lemma filterFrom_loop:
  assumes "heap \<sigma> = h0 @ [Array acc]" and "src < length h0" and "h0 ! src = Array xs"
    and "list_all2 (\<lambda>x a. x < length h0 \<and> h0 ! x = Record a) xs recs"
    and "k + n = length xs"
  shows "filterFrom (onRecord p) src (length h0) k n \<sigma> =
           ((case filterE p (drop k recs) of Inl e \<Rightarrow> Inl (Thrown e) | Inr kept \<Rightarrow> Inr ()),
            \<sigma>\<lparr>heap := h0 @ [Array (acc @ keptBefore p (drop k (zip xs recs)))]\<rparr>)"
  using assms
proof (induction n arbitrary: k \<sigma> acc)
  case 0
  then have "length xs = length recs" by (auto dest: list_all2_lengthD)
  with 0 show ?case by (simp add: succeed_def)
next
  case (Suc n)
  from Suc.prems(4) have len: "length xs = length recs" by (rule list_all2_lengthD)
  from Suc.prems(5) have k: "k < length xs" by simp
  with Suc.prems(4) have xk: "xs ! k < length h0" "h0 ! (xs ! k) = Record (recs ! k)"
    by (auto dest: list_all2_nthD)
  have dr: "drop k recs = recs ! k # drop (Suc k) recs"
    using k len by (simp add: Cons_nth_drop_Suc)
  have dz: "drop k (zip xs recs) = (xs ! k, recs ! k) # drop (Suc k) (zip xs recs)"
    using k len by (simp add: Cons_nth_drop_Suc [symmetric])
  have rd: "readArray src \<sigma> = (Inr xs, \<sigma>)"
    using Suc.prems(1,2,3) by (simp add: readArray_def nth_append)
  have rr: "readRecord (xs ! k) \<sigma> = (Inr (recs ! k), \<sigma>)"
    using Suc.prems(1) xk by (simp add: readRecord_def nth_append)
  have cb: "onRecord p (xs ! k) \<sigma> =
      (case p (recs ! k) of Inl e \<Rightarrow> (Inl (Thrown e), \<sigma>) | Inr b \<Rightarrow> (Inr b, \<sigma>))"
    using rr by (simp add: onRecord_def andThen_def)
  show ?case
  proof (cases "p (recs ! k)")
    case (Inl e)
    then show ?thesis
      using rd k cb Suc.prems(1) by (simp add: andThen_def dr dz)
  next
    case (Inr b)
    show ?thesis
    proof (cases b)
      case True
      let ?\<sigma>' = "\<sigma>\<lparr>heap := h0 @ [Array (acc @ [xs ! k])]\<rparr>"
      have pu: "push (length h0) (xs ! k) \<sigma> = (Inr (), ?\<sigma>')"
        using Suc.prems(1) by (simp add: push_def)
      have ih: "filterFrom (onRecord p) src (length h0) (Suc k) n ?\<sigma>' =
           ((case filterE p (drop (Suc k) recs) of Inl e \<Rightarrow> Inl (Thrown e) | Inr kept \<Rightarrow> Inr ()),
            ?\<sigma>'\<lparr>heap := h0 @ [Array ((acc @ [xs ! k]) @ keptBefore p (drop (Suc k) (zip xs recs)))]\<rparr>)"
        using Suc.prems by (intro Suc.IH) simp_all
      show ?thesis
        using rd k cb Inr True pu ih by (simp add: andThen_def dr dz split: sum.splits)
    next
      case False
      have ih: "filterFrom (onRecord p) src (length h0) (Suc k) n \<sigma> =
           ((case filterE p (drop (Suc k) recs) of Inl e \<Rightarrow> Inl (Thrown e) | Inr kept \<Rightarrow> Inr ()),
            \<sigma>\<lparr>heap := h0 @ [Array (acc @ keptBefore p (drop (Suc k) (zip xs recs)))]\<rparr>)"
        using Suc.prems by (intro Suc.IH) simp_all
      show ?thesis
        using rd k cb Inr False ih by (simp add: andThen_def dr dz split: sum.splits)
    qed
  qed
qed

lemma arrayFilter_onRecord:
  assumes "recordArray (heap \<sigma>) src"
  shows "arrayFilter (onRecord p) src \<sigma> =
           ((case filterE p (recordsAt (heap \<sigma>) src) of
               Inl e \<Rightarrow> Inl (Thrown e)
             | Inr kept \<Rightarrow> Inr (length (heap \<sigma>))),
            \<sigma>\<lparr>heap := heap \<sigma> @
                 [Array (keptBefore p (zip (refsAt (heap \<sigma>) src) (recordsAt (heap \<sigma>) src)))]\<rparr>)"
proof -
  let ?xs = "refsAt (heap \<sigma>) src"
  let ?recs = "recordsAt (heap \<sigma>) src"
  let ?\<sigma>2 = "\<sigma>\<lparr>heap := heap \<sigma> @ [Array []]\<rparr>"
  note ra = recordArray_refs [OF assms]
  have rd: "readArray src \<sigma> = (Inr ?xs, \<sigma>)"
    using ra(1,2) by (simp add: readArray_def)
  have loop: "filterFrom (onRecord p) src (length (heap \<sigma>)) 0 (length ?xs) ?\<sigma>2 =
           ((case filterE p (drop 0 ?recs) of Inl e \<Rightarrow> Inl (Thrown e) | Inr kept \<Rightarrow> Inr ()),
            ?\<sigma>2\<lparr>heap := heap \<sigma> @ [Array ([] @ keptBefore p (drop 0 (zip ?xs ?recs)))]\<rparr>)"
    unfolding recordsAt_def using ra by (intro filterFrom_loop) (simp_all add: records_wf)
  show ?thesis
    using rd loop
    by (simp add: arrayFilter_def newArray_def andThen_def succeed_def split: sum.splits)
qed

lemma reduceFrom_addAmount:
  assumes "src < length (heap \<sigma>)" and "heap \<sigma> ! src = Array xs"
    and "list_all2 (\<lambda>x a. x < length (heap \<sigma>) \<and> heap \<sigma> ! x = Record a) xs recs"
    and "k + n = length xs"
  shows "reduceFrom addAmount src acc k n \<sigma> =
           (Inr (foldl (\<lambda>sum a. sum + amount a) acc (drop k recs)), \<sigma>)"
  using assms(4)
proof (induction n arbitrary: k acc)
  case 0
  with assms(3) show ?case by (auto simp: succeed_def dest: list_all2_lengthD)
next
  case (Suc n)
  from assms(3) have len: "length xs = length recs" by (rule list_all2_lengthD)
  from Suc.prems have k: "k < length xs" by simp
  with assms(3) have xk: "xs ! k < length (heap \<sigma>)" "heap \<sigma> ! (xs ! k) = Record (recs ! k)"
    by (auto dest: list_all2_nthD)
  have dr: "drop k recs = recs ! k # drop (Suc k) recs"
    using k len by (simp add: Cons_nth_drop_Suc)
  have rd: "readArray src \<sigma> = (Inr xs, \<sigma>)"
    using assms(1,2) by (simp add: readArray_def)
  have cb: "addAmount acc (xs ! k) \<sigma> = (Inr (acc + amount (recs ! k)), \<sigma>)"
    using xk by (simp add: addAmount_def readRecord_def andThen_def succeed_def)
  have "reduceFrom addAmount src (acc + amount (recs ! k)) (Suc k) n \<sigma> =
          (Inr (foldl (\<lambda>sum a. sum + amount a) (acc + amount (recs ! k)) (drop (Suc k) recs)), \<sigma>)"
    using Suc.prems by (intro Suc.IH) simp
  then show ?case
    using rd cb k by (simp add: andThen_def dr)
qed

lemma filterEffect_wellFormed:
  assumes "recordArray (heap \<sigma>) (activities_c \<sigma>)"
  shows "filterEffect isoOf \<sigma> =
     (let xs = refsAt (heap \<sigma>) (activities_c \<sigma>);
          recs = recordsAt (heap \<sigma>) (activities_c \<sigma>);
          p = keepActivity isoOf (searchTerm_c \<sigma>) (typeFilter_c \<sigma>) (fromDate_c \<sigma>) (toDate_c \<sigma>)
      in if xs = [] then
           (Inr (), \<sigma>\<lparr>heap := heap \<sigma> @ [Array []], filteredActivities_c := length (heap \<sigma>)\<rparr>)
         else
           (case filterE p recs of
              Inl e \<Rightarrow> (Inl (Thrown e), \<sigma>\<lparr>heap := heap \<sigma> @ [Array (keptBefore p (zip xs recs))]\<rparr>)
            | Inr kept \<Rightarrow>
                (Inr (), \<sigma>\<lparr>heap := heap \<sigma> @ [Array (keptBefore p (zip xs recs))],
                           filteredActivities_c := length (heap \<sigma>)\<rparr>)))"
proof -
  note ra = recordArray_refs [OF assms]
  have rd: "readArray (activities_c \<sigma>) \<sigma> = (Inr (refsAt (heap \<sigma>) (activities_c \<sigma>)), \<sigma>)"
    using ra(1,2) by (simp add: readArray_def)
  show ?thesis
  proof (cases "refsAt (heap \<sigma>) (activities_c \<sigma>) = []")
    case True
    then show ?thesis
      using rd by (simp add: filterEffect_def newArray_def setFilteredActivities_def andThen_def)
  next
    case False
    then show ?thesis
      using rd arrayFilter_onRecord [OF assms]
      by (simp add: filterEffect_def setFilteredActivities_def andThen_def Let_def
          split: sum.splits)
  qed
qed

lemma arrayFilter_pred:
  assumes "recordArray (heap \<sigma>) f"
  shows "\<exists>ys. arrayFilter (onRecord (\<lambda>a. Inr (q a))) f \<sigma> =
                 (Inr (length (heap \<sigma>)), \<sigma>\<lparr>heap := heap \<sigma> @ [Array ys]\<rparr>)
             \<and> list_all (isRecordRef (heap \<sigma>)) ys
             \<and> records (heap \<sigma>) ys = filter q (recordsAt (heap \<sigma>) f)"
proof -
  let ?xs = "refsAt (heap \<sigma>) f" and ?recs = "recordsAt (heap \<sigma>) f"
  let ?ys = "keptBefore (\<lambda>a. Inr (q a)) (zip ?xs ?recs)"
  note ra = recordArray_refs [OF assms]
  have l2: "list_all2 (\<lambda>x a. x < length (heap \<sigma>) \<and> heap \<sigma> ! x = Record a) ?xs ?recs"
    unfolding recordsAt_def using ra(3) by (rule records_wf)
  have "set ?ys \<subseteq> set ?xs"
    using l2 by (intro keptBefore_subset) (rule list_all2_lengthD)
  with ra(3) have 1: "list_all (isRecordRef (heap \<sigma>)) ?ys"
    by (auto simp: list_all_iff)
  have 2: "records (heap \<sigma>) ?ys = filter q ?recs"
    using l2 by (rule keptBefore_records) (rule filterE_pred)
  have 3: "arrayFilter (onRecord (\<lambda>a. Inr (q a))) f \<sigma> =
                 (Inr (length (heap \<sigma>)), \<sigma>\<lparr>heap := heap \<sigma> @ [Array ?ys]\<rparr>)"
    by (simp add: arrayFilter_onRecord [OF assms] filterE_pred)
  from 1 2 3 show ?thesis by blast
qed

lemma arrayReduce_fresh:
  assumes "list_all (isRecordRef h) ys" and "heap \<sigma> = h @ [Array ys]"
  shows "arrayReduce addAmount (length h) init \<sigma> =
           (Inr (foldl (\<lambda>sum a. sum + amount a) init (records h ys)), \<sigma>)"
proof -
  have rd: "readArray (length h) \<sigma> = (Inr ys, \<sigma>)"
    using assms(2) by (simp add: readArray_def)
  have "list_all (isRecordRef (heap \<sigma>)) ys"
    using assms by (auto simp: list_all_iff isRecordRef_grow)
  then have "list_all2 (\<lambda>x a. x < length (heap \<sigma>) \<and> heap \<sigma> ! x = Record a) ys
               (records (heap \<sigma>) ys)"
    by (rule records_wf)
  then have l2: "list_all2 (\<lambda>x a. x < length (heap \<sigma>) \<and> heap \<sigma> ! x = Record a) ys (records h ys)"
    using assms by (simp add: records_grow)
  have "reduceFrom addAmount (length h) init 0 (length ys) \<sigma> =
          (Inr (foldl (\<lambda>sum a. sum + amount a) init (drop 0 (records h ys))), \<sigma>)"
    using assms(2) l2 by (intro reduceFrom_addAmount) simp_all
  then show ?thesis
    using rd by (simp add: arrayReduce_def andThen_def)
qed

lemma arrayLength_fresh:
  assumes "list_all (isRecordRef h) ys" and "heap \<sigma> = h @ [Array ys]"
  shows "arrayLength (length h) \<sigma> = (Inr (length (records h ys)), \<sigma>)"
proof -
  have rd: "readArray (length h) \<sigma> = (Inr ys, \<sigma>)"
    using assms(2) by (simp add: readArray_def)
  have "length ys = length (records h ys)"
    using records_wf [OF assms(1)] by (rule list_all2_lengthD)
  then show ?thesis
    using rd by (simp add: arrayLength_def andThen_def succeed_def)
qed

lemma filter_then_reduce:
  assumes "recordArray (heap \<sigma>) f"
  shows "\<exists>ys. \<forall>K. andThen (arrayFilter (onRecord (\<lambda>a. Inr (q a))) f)
                     (\<lambda>r. andThen (arrayReduce addAmount r 0) K) \<sigma> =
                   K (foldl (\<lambda>sum a. sum + amount a) 0 (filter q (recordsAt (heap \<sigma>) f)))
                     (\<sigma>\<lparr>heap := heap \<sigma> @ [Array ys]\<rparr>)"
proof -
  from arrayFilter_pred [OF assms, of q] obtain ys
    where af: "arrayFilter (onRecord (\<lambda>a. Inr (q a))) f \<sigma> =
                 (Inr (length (heap \<sigma>)), \<sigma>\<lparr>heap := heap \<sigma> @ [Array ys]\<rparr>)"
      and rr: "list_all (isRecordRef (heap \<sigma>)) ys"
      and rs: "records (heap \<sigma>) ys = filter q (recordsAt (heap \<sigma>) f)"
    by blast
  have "arrayReduce addAmount (length (heap \<sigma>)) 0 (\<sigma>\<lparr>heap := heap \<sigma> @ [Array ys]\<rparr>) =
          (Inr (foldl (\<lambda>sum a. sum + amount a) 0 (records (heap \<sigma>) ys)),
           \<sigma>\<lparr>heap := heap \<sigma> @ [Array ys]\<rparr>)"
    using rr by (rule arrayReduce_fresh) simp
  with af rs show ?thesis
    by (intro exI [of _ ys]) (simp add: andThen_def)
qed

lemma filter_then_length:
  assumes "recordArray (heap \<sigma>) f"
  shows "\<exists>ys. \<forall>K. andThen (arrayFilter (onRecord (\<lambda>a. Inr (q a))) f)
                     (\<lambda>r. andThen (arrayLength r) K) \<sigma> =
                   K (length (filter q (recordsAt (heap \<sigma>) f)))
                     (\<sigma>\<lparr>heap := heap \<sigma> @ [Array ys]\<rparr>)"
proof -
  from arrayFilter_pred [OF assms, of q] obtain ys
    where af: "arrayFilter (onRecord (\<lambda>a. Inr (q a))) f \<sigma> =
                 (Inr (length (heap \<sigma>)), \<sigma>\<lparr>heap := heap \<sigma> @ [Array ys]\<rparr>)"
      and rr: "list_all (isRecordRef (heap \<sigma>)) ys"
      and rs: "records (heap \<sigma>) ys = filter q (recordsAt (heap \<sigma>) f)"
    by blast
  have "arrayLength (length (heap \<sigma>)) (\<sigma>\<lparr>heap := heap \<sigma> @ [Array ys]\<rparr>) =
          (Inr (length (records (heap \<sigma>) ys)), \<sigma>\<lparr>heap := heap \<sigma> @ [Array ys]\<rparr>)"
    using rr by (rule arrayLength_fresh) simp
  with af rs show ?thesis
    by (intro exI [of _ ys]) (simp add: andThen_def)
qed

lemma renderSummary_wellFormed:
  fixes \<sigma> :: "('n::{zero,plus}) runtime"
  assumes "recordArray (heap \<sigma>) (filteredActivities_c \<sigma>)"
  shows "\<exists>ext. renderSummary \<sigma> =
           (Inr (summaryOf (recordsAt (heap \<sigma>) (filteredActivities_c \<sigma>))),
            \<sigma>\<lparr>heap := heap \<sigma> @ ext\<rparr>)"
proof -
  let ?f = "filteredActivities_c \<sigma>" and ?h = "heap \<sigma>"
  let ?recs = "recordsAt ?h ?f"
  from filter_then_reduce [OF assms, of "\<lambda>a. type_a a = ''sale''"] obtain y1 where
    s1: "\<And>K :: 'n \<Rightarrow> ('n, 'n \<times> 'n \<times> nat \<times> nat) prog. andThen (arrayFilter (onRecord (\<lambda>a. Inr (type_a a = ''sale''))) ?f)
                     (\<lambda>r. andThen (arrayReduce addAmount r 0) K) \<sigma> =
                   K (foldl (\<lambda>sum a. sum + amount a) 0 (filter (\<lambda>a. type_a a = ''sale'') ?recs))
                     (\<sigma>\<lparr>heap := ?h @ [Array y1]\<rparr>)"
    by blast
  let ?\<sigma>1 = "\<sigma>\<lparr>heap := ?h @ [Array y1]\<rparr>"
  have a1: "recordArray (heap ?\<sigma>1) ?f" and r1: "recordsAt (heap ?\<sigma>1) ?f = ?recs"
    using assms by (simp_all add: recordArray_grow recordsAt_grow)
  from filter_then_reduce [OF a1, of "\<lambda>a. type_a a = ''payment''"] obtain y2 where
    s2: "\<And>K :: 'n \<Rightarrow> ('n, 'n \<times> 'n \<times> nat \<times> nat) prog. andThen (arrayFilter (onRecord (\<lambda>a. Inr (type_a a = ''payment''))) ?f)
                     (\<lambda>r. andThen (arrayReduce addAmount r 0) K) ?\<sigma>1 =
                   K (foldl (\<lambda>sum a. sum + amount a) 0 (filter (\<lambda>a. type_a a = ''payment'') ?recs))
                     (?\<sigma>1\<lparr>heap := heap ?\<sigma>1 @ [Array y2]\<rparr>)"
    unfolding r1 by blast
  let ?\<sigma>2 = "\<sigma>\<lparr>heap := ?h @ [Array y1, Array y2]\<rparr>"
  have a2: "recordArray (heap ?\<sigma>2) ?f" and r2: "recordsAt (heap ?\<sigma>2) ?f = ?recs"
    using assms by (simp_all add: recordArray_grow recordsAt_grow)
  from filter_then_length [OF a2, of "\<lambda>a. status a = ''completed''"] obtain y3 where
    s3: "\<And>K :: nat \<Rightarrow> ('n, 'n \<times> 'n \<times> nat \<times> nat) prog. andThen (arrayFilter (onRecord (\<lambda>a. Inr (status a = ''completed''))) ?f)
                     (\<lambda>r. andThen (arrayLength r) K) ?\<sigma>2 =
                   K (length (filter (\<lambda>a. status a = ''completed'') ?recs))
                     (?\<sigma>2\<lparr>heap := heap ?\<sigma>2 @ [Array y3]\<rparr>)"
    unfolding r2 by blast
  let ?\<sigma>3 = "\<sigma>\<lparr>heap := ?h @ [Array y1, Array y2, Array y3]\<rparr>"
  have a3: "recordArray (heap ?\<sigma>3) ?f" and r3: "recordsAt (heap ?\<sigma>3) ?f = ?recs"
    using assms by (simp_all add: recordArray_grow recordsAt_grow)
  from filter_then_length [OF a3, of "\<lambda>a. status a = ''pending''"] obtain y4 where
    s4: "\<And>K :: nat \<Rightarrow> ('n, 'n \<times> 'n \<times> nat \<times> nat) prog. andThen (arrayFilter (onRecord (\<lambda>a. Inr (status a = ''pending''))) ?f)
                     (\<lambda>r. andThen (arrayLength r) K) ?\<sigma>3 =
                   K (length (filter (\<lambda>a. status a = ''pending'') ?recs))
                     (?\<sigma>3\<lparr>heap := heap ?\<sigma>3 @ [Array y4]\<rparr>)"
    unfolding r3 by blast
  have "renderSummary \<sigma> =
           (Inr (summaryOf ?recs), \<sigma>\<lparr>heap := ?h @ [Array y1, Array y2, Array y3, Array y4]\<rparr>)"
    unfolding renderSummary_def
    by (simp add: s1 s2 s3 s4 succeed_def summaryOf_def totalSales_def totalPayments_def
        completedActivities_def pendingActivities_def)
  then show ?thesis by blast
qed

lemma filterActivities_inputs_only:
  "searchTerm_st s1 = searchTerm_st s2 \<Longrightarrow> typeFilter_st s1 = typeFilter_st s2 \<Longrightarrow>
   fromDate_st s1 = fromDate_st s2 \<Longrightarrow> toDate_st s1 = toDate_st s2 \<Longrightarrow>
   activities s1 = activities s2 \<Longrightarrow>
     map_sum f (\<lambda>s. g (filteredActivities s)) (filterActivities isoOf s1) =
     map_sum f (\<lambda>s. g (filteredActivities s)) (filterActivities isoOf s2)"
  by (auto simp: filterActivities_def split: sum.splits)

lemma filterThenRender_wellFormed:
  fixes \<sigma> :: "('n::{zero,plus}) runtime"
  assumes "wellFormed \<sigma>"
  shows "\<exists>ext r. filterThenRender isoOf \<sigma> =
            (map_sum Thrown (\<lambda>s. (filteredActivities s, summaryOf (filteredActivities s)))
               (filterActivities isoOf (abstract \<sigma>)),
             \<sigma>\<lparr>heap := heap \<sigma> @ ext, filteredActivities_c := r\<rparr>)
          \<and> recordArray (heap \<sigma> @ ext) r
          \<and> r = (case filterActivities isoOf (abstract \<sigma>) of
                   Inl e \<Rightarrow> filteredActivities_c \<sigma>
                 | Inr s \<Rightarrow> length (heap \<sigma>))"
proof -
  let ?h = "heap \<sigma>"
  let ?xs = "refsAt ?h (activities_c \<sigma>)" and ?recs = "recordsAt ?h (activities_c \<sigma>)"
  let ?p = "keepActivity isoOf (searchTerm_c \<sigma>) (typeFilter_c \<sigma>) (fromDate_c \<sigma>) (toDate_c \<sigma>)"
  let ?ys = "keptBefore ?p (zip ?xs ?recs)"
  from assms have act: "recordArray ?h (activities_c \<sigma>)"
    and old: "recordArray ?h (filteredActivities_c \<sigma>)"
    by (simp_all add: wellFormed_def)
  note ra = recordArray_refs [OF act]
  have l2: "list_all2 (\<lambda>x a. x < length ?h \<and> ?h ! x = Record a) ?xs ?recs"
    unfolding recordsAt_def using ra(3) by (rule records_wf)
  then have len: "length ?xs = length ?recs" by (rule list_all2_lengthD)
  have "set ?ys \<subseteq> set ?xs"
    using len by (rule keptBefore_subset)
  with ra(3) have ysr: "list_all (isRecordRef ?h) ?ys"
    by (auto simp: list_all_iff)
  have success: "\<exists>ext r. filterThenRender isoOf \<sigma> =
            (Inr (kept, summaryOf kept), \<sigma>\<lparr>heap := ?h @ ext, filteredActivities_c := r\<rparr>)
          \<and> recordArray (?h @ ext) r \<and> r = length ?h"
    if eff: "filterEffect isoOf \<sigma> =
               (Inr (), \<sigma>\<lparr>heap := ?h @ [Array zs], filteredActivities_c := length ?h\<rparr>)"
      and zs: "list_all (isRecordRef ?h) zs" and kept: "records ?h zs = kept"
    for zs kept
  proof -
    let ?\<sigma>1 = "\<sigma>\<lparr>heap := ?h @ [Array zs], filteredActivities_c := length ?h\<rparr>"
    have fresh: "recordArray (heap ?\<sigma>1) (filteredActivities_c ?\<sigma>1)"
      using zs by (simp add: recordArray_fresh)
    have recs1: "recordsAt (heap ?\<sigma>1) (filteredActivities_c ?\<sigma>1) = kept"
      using zs kept by (simp add: recordsAt_fresh)
    from renderSummary_wellFormed [OF fresh] obtain ext where
      rs: "renderSummary ?\<sigma>1 = (Inr (summaryOf kept), ?\<sigma>1\<lparr>heap := heap ?\<sigma>1 @ ext\<rparr>)"
      unfolding recs1 by blast
    have "recordsAt ((?h @ [Array zs]) @ ext) (length ?h) = recordsAt (?h @ [Array zs]) (length ?h)"
      using fresh by (intro recordsAt_grow) simp
    with recs1 have grow: "recordsAt (?h @ Array zs # ext) (length ?h) = kept"
      by simp
    have 1: "filterThenRender isoOf \<sigma> =
            (Inr (kept, summaryOf kept),
             \<sigma>\<lparr>heap := ?h @ (Array zs # ext), filteredActivities_c := length ?h\<rparr>)"
      using eff rs grow by (simp add: filterThenRender_def andThen_def)
    have 2: "recordArray (?h @ (Array zs # ext)) (length ?h)"
      using recordArray_grow [OF fresh, of ext] by simp
    from 1 2 show ?thesis by blast
  qed
  show ?thesis
  proof (cases "?xs = []")
    case True
    with len have r0: "?recs = []" by simp
    have eff: "filterEffect isoOf \<sigma> =
               (Inr (), \<sigma>\<lparr>heap := ?h @ [Array []], filteredActivities_c := length ?h\<rparr>)"
      using True by (simp add: filterEffect_wellFormed [OF act])
    have pure: "filterActivities isoOf (abstract \<sigma>) = Inr ((abstract \<sigma>)\<lparr>filteredActivities := []\<rparr>)"
      using r0 by (simp add: filterActivities_def abstract_def)
    from success [OF eff, of "[]"] show ?thesis
      by (auto simp: pure)
  next
    case False
    with len have ne: "?recs \<noteq> []" by auto
    show ?thesis
    proof (cases "filterE ?p ?recs")
      case (Inl e)
      have eff: "filterEffect isoOf \<sigma> = (Inl (Thrown e), \<sigma>\<lparr>heap := ?h @ [Array ?ys]\<rparr>)"
        using False Inl by (simp add: filterEffect_wellFormed [OF act] Let_def)
      have pure: "filterActivities isoOf (abstract \<sigma>) = Inl e"
        using ne Inl by (simp add: filterActivities_def abstract_def)
      have 1: "filterThenRender isoOf \<sigma> =
          (Inl (Thrown e), \<sigma>\<lparr>heap := ?h @ [Array ?ys], filteredActivities_c := filteredActivities_c \<sigma>\<rparr>)"
        using eff by (simp add: filterThenRender_def andThen_def)
      have 2: "recordArray (?h @ [Array ?ys]) (filteredActivities_c \<sigma>)"
        using old by (rule recordArray_grow)
      from 1 2 show ?thesis
        unfolding pure by (intro exI [of _ "[Array ?ys]"] exI [of _ "filteredActivities_c \<sigma>"]) simp
    next
      case (Inr kept)
      have eff: "filterEffect isoOf \<sigma> =
               (Inr (), \<sigma>\<lparr>heap := ?h @ [Array ?ys], filteredActivities_c := length ?h\<rparr>)"
        using False Inr by (simp add: filterEffect_wellFormed [OF act] Let_def)
      have k: "records ?h ?ys = kept"
        using l2 Inr by (rule keptBefore_records)
      have pure: "filterActivities isoOf (abstract \<sigma>) =
          Inr ((abstract \<sigma>)\<lparr>filteredActivities := kept\<rparr>)"
        using ne Inr by (simp add: filterActivities_def abstract_def)
      from success [OF eff ysr k] show ?thesis
        by (auto simp: pure)
    qed
  qed
qed

lemma run_preserves:
  fixes \<sigma> :: "('n::{zero,plus}) runtime"
  assumes wf: "wellFormed \<sigma>"
    and run: "filterThenRender isoOf \<sigma> = (res, \<sigma>')"
  shows "take (length (heap \<sigma>)) (heap \<sigma>') = heap \<sigma>"
    and "searchTerm_c \<sigma>' = searchTerm_c \<sigma>" and "typeFilter_c \<sigma>' = typeFilter_c \<sigma>"
    and "fromDate_c \<sigma>' = fromDate_c \<sigma>" and "toDate_c \<sigma>' = toDate_c \<sigma>"
    and "activities_c \<sigma>' = activities_c \<sigma>"
    and "refsAt (heap \<sigma>') (activities_c \<sigma>') = refsAt (heap \<sigma>) (activities_c \<sigma>)"
    and "recordsAt (heap \<sigma>') (activities_c \<sigma>') = recordsAt (heap \<sigma>) (activities_c \<sigma>)"
    and "filteredActivities_c \<sigma>' =
           (case res of Inl f \<Rightarrow> filteredActivities_c \<sigma> | Inr v \<Rightarrow> length (heap \<sigma>))"
    and "wellFormed \<sigma>'"
    and "res = map_sum Thrown (\<lambda>s. (filteredActivities s, summaryOf (filteredActivities s)))
                 (filterActivities isoOf (abstract \<sigma>))"
proof -
  from filterThenRender_wellFormed [OF wf, of isoOf] run obtain ext r
    where res: "res = map_sum Thrown (\<lambda>s. (filteredActivities s, summaryOf (filteredActivities s)))
                 (filterActivities isoOf (abstract \<sigma>))"
      and st: "\<sigma>' = \<sigma>\<lparr>heap := heap \<sigma> @ ext, filteredActivities_c := r\<rparr>"
      and ra: "recordArray (heap \<sigma> @ ext) r"
      and fr: "r = (case filterActivities isoOf (abstract \<sigma>) of
                   Inl e \<Rightarrow> filteredActivities_c \<sigma>
                 | Inr s \<Rightarrow> length (heap \<sigma>))"
    by auto
  from wf have act: "recordArray (heap \<sigma>) (activities_c \<sigma>)"
    by (simp add: wellFormed_def)
  show "take (length (heap \<sigma>)) (heap \<sigma>') = heap \<sigma>"
    and "searchTerm_c \<sigma>' = searchTerm_c \<sigma>" and "typeFilter_c \<sigma>' = typeFilter_c \<sigma>"
    and "fromDate_c \<sigma>' = fromDate_c \<sigma>" and "toDate_c \<sigma>' = toDate_c \<sigma>"
    and "activities_c \<sigma>' = activities_c \<sigma>"
    by (simp_all add: st)
  show "refsAt (heap \<sigma>') (activities_c \<sigma>') = refsAt (heap \<sigma>) (activities_c \<sigma>)"
    using recordArray_refs(1) [OF act] by (simp add: st refsAt_grow)
  show "recordsAt (heap \<sigma>') (activities_c \<sigma>') = recordsAt (heap \<sigma>) (activities_c \<sigma>)"
    using act by (simp add: st recordsAt_grow)
  show "filteredActivities_c \<sigma>' =
           (case res of Inl f \<Rightarrow> filteredActivities_c \<sigma> | Inr v \<Rightarrow> length (heap \<sigma>))"
    using fr by (simp add: st res split: sum.splits)
  show "wellFormed \<sigma>'"
    using act ra by (simp add: st wellFormed_def recordArray_grow)
  show "res = map_sum Thrown (\<lambda>s. (filteredActivities s, summaryOf (filteredActivities s)))
                 (filterActivities isoOf (abstract \<sigma>))"
    by (rule res)
qed

lemma run_inputs_only:
  fixes \<sigma>1 \<sigma>2 :: "('n::{zero,plus}) runtime"
  assumes "wellFormed \<sigma>1" and "wellFormed \<sigma>2"
    and "searchTerm_c \<sigma>1 = searchTerm_c \<sigma>2" and "typeFilter_c \<sigma>1 = typeFilter_c \<sigma>2"
    and "fromDate_c \<sigma>1 = fromDate_c \<sigma>2" and "toDate_c \<sigma>1 = toDate_c \<sigma>2"
    and "recordsAt (heap \<sigma>1) (activities_c \<sigma>1) = recordsAt (heap \<sigma>2) (activities_c \<sigma>2)"
  shows "fst (filterThenRender isoOf \<sigma>1) = fst (filterThenRender isoOf \<sigma>2)"
proof -
  have 1: "fst (filterThenRender isoOf \<sigma>1) =
        map_sum Thrown (\<lambda>s. (filteredActivities s, summaryOf (filteredActivities s)))
          (filterActivities isoOf (abstract \<sigma>1))"
    using run_preserves(11) [OF assms(1), of isoOf] by (cases "filterThenRender isoOf \<sigma>1") simp
  have 2: "fst (filterThenRender isoOf \<sigma>2) =
        map_sum Thrown (\<lambda>s. (filteredActivities s, summaryOf (filteredActivities s)))
          (filterActivities isoOf (abstract \<sigma>2))"
    using run_preserves(11) [OF assms(2), of isoOf] by (cases "filterThenRender isoOf \<sigma>2") simp
  show ?thesis
    unfolding 1 2 using assms(3-7)
    by (intro filterActivities_inputs_only) (simp_all add: abstract_def)
qed

text \<open>
  C8. On a well-formed store, one pass of the customer-activity page (the filter effect
  followed by the summary figures) changes no object that existed before it: the old
  heap is a prefix of the new one, so the \<^verbatim>\<open>activities\<close> array, every activity record
  and the previously stored result are as they were, and the four filter inputs and the
  \<^verbatim>\<open>activities\<close> reference are unchanged. A pass that returns stores a reference to a
  newly allocated array; a pass that throws leaves \<^verbatim>\<open>filteredActivities\<close> as it was.
  The store stays well formed. The outcome of the pass (the filtered records and the four
  figures, or the exception) is the one the functional model \<^const>\<open>filterActivities\<close>
  gives on the records of the store, a second pass on the resulting store has the same
  outcome, and two well-formed stores that agree on the four filter inputs and on the
  records of \<^verbatim>\<open>activities\<close> have the same outcome, whatever their layout and their
  previously stored results.
\<close>

theorem filterThenRender_frame_and_determinism:
  fixes \<sigma> \<sigma>1 \<sigma>2 :: "('n::{zero,plus}) runtime"
  shows
  "(wellFormed \<sigma> \<longrightarrow>
      (case filterThenRender isoOf \<sigma> of
         (res, \<sigma>') \<Rightarrow>
            take (length (heap \<sigma>)) (heap \<sigma>') = heap \<sigma>
          \<and> searchTerm_c \<sigma>' = searchTerm_c \<sigma> \<and> typeFilter_c \<sigma>' = typeFilter_c \<sigma>
          \<and> fromDate_c \<sigma>' = fromDate_c \<sigma> \<and> toDate_c \<sigma>' = toDate_c \<sigma>
          \<and> activities_c \<sigma>' = activities_c \<sigma>
          \<and> refsAt (heap \<sigma>') (activities_c \<sigma>') = refsAt (heap \<sigma>) (activities_c \<sigma>)
          \<and> recordsAt (heap \<sigma>') (activities_c \<sigma>') = recordsAt (heap \<sigma>) (activities_c \<sigma>)
          \<and> filteredActivities_c \<sigma>' =
              (case res of Inl f \<Rightarrow> filteredActivities_c \<sigma> | Inr v \<Rightarrow> length (heap \<sigma>))
          \<and> wellFormed \<sigma>'
          \<and> res = map_sum Thrown (\<lambda>s. (filteredActivities s, summaryOf (filteredActivities s)))
                     (filterActivities isoOf (abstract \<sigma>))
          \<and> fst (filterThenRender isoOf \<sigma>') = res))
   \<and> (wellFormed \<sigma>1 \<and> wellFormed \<sigma>2
      \<and> searchTerm_c \<sigma>1 = searchTerm_c \<sigma>2 \<and> typeFilter_c \<sigma>1 = typeFilter_c \<sigma>2
      \<and> fromDate_c \<sigma>1 = fromDate_c \<sigma>2 \<and> toDate_c \<sigma>1 = toDate_c \<sigma>2
      \<and> recordsAt (heap \<sigma>1) (activities_c \<sigma>1) = recordsAt (heap \<sigma>2) (activities_c \<sigma>2) \<longrightarrow>
        fst (filterThenRender isoOf \<sigma>1) = fst (filterThenRender isoOf \<sigma>2))"
proof (intro conjI impI)
  assume wf: "wellFormed \<sigma>"
  obtain res \<sigma>' where run: "filterThenRender isoOf \<sigma> = (res, \<sigma>')"
    by (cases "filterThenRender isoOf \<sigma>")
  note p = run_preserves [OF wf run]
  have again: "fst (filterThenRender isoOf \<sigma>') = fst (filterThenRender isoOf \<sigma>)"
    using p(10) wf p(2-5) p(8) by (rule run_inputs_only)
  show "case filterThenRender isoOf \<sigma> of
         (res, \<sigma>') \<Rightarrow>
            take (length (heap \<sigma>)) (heap \<sigma>') = heap \<sigma>
          \<and> searchTerm_c \<sigma>' = searchTerm_c \<sigma> \<and> typeFilter_c \<sigma>' = typeFilter_c \<sigma>
          \<and> fromDate_c \<sigma>' = fromDate_c \<sigma> \<and> toDate_c \<sigma>' = toDate_c \<sigma>
          \<and> activities_c \<sigma>' = activities_c \<sigma>
          \<and> refsAt (heap \<sigma>') (activities_c \<sigma>') = refsAt (heap \<sigma>) (activities_c \<sigma>)
          \<and> recordsAt (heap \<sigma>') (activities_c \<sigma>') = recordsAt (heap \<sigma>) (activities_c \<sigma>)
          \<and> filteredActivities_c \<sigma>' =
              (case res of Inl f \<Rightarrow> filteredActivities_c \<sigma> | Inr v \<Rightarrow> length (heap \<sigma>))
          \<and> wellFormed \<sigma>'
          \<and> res = map_sum Thrown (\<lambda>s. (filteredActivities s, summaryOf (filteredActivities s)))
                     (filterActivities isoOf (abstract \<sigma>))
          \<and> fst (filterThenRender isoOf \<sigma>') = res"
    unfolding run using p again by (simp add: run)
next
  assume "wellFormed \<sigma>1 \<and> wellFormed \<sigma>2
      \<and> searchTerm_c \<sigma>1 = searchTerm_c \<sigma>2 \<and> typeFilter_c \<sigma>1 = typeFilter_c \<sigma>2
      \<and> fromDate_c \<sigma>1 = fromDate_c \<sigma>2 \<and> toDate_c \<sigma>1 = toDate_c \<sigma>2
      \<and> recordsAt (heap \<sigma>1) (activities_c \<sigma>1) = recordsAt (heap \<sigma>2) (activities_c \<sigma>2)"
  then show "fst (filterThenRender isoOf \<sigma>1) = fst (filterThenRender isoOf \<sigma>2)"
    by (intro run_inputs_only) simp_all
qed

theorem filterThenRender_frame_and_determinism_witness:
  "wellFormed sampleRuntime
   \<and> fst (filterThenRender sampleDates sampleRuntime) =
       Inr ([sampleActivity, undatedActivity], (200, 0, 2, 0))
   \<and> take 5 (heap (snd (filterThenRender sampleDates sampleRuntime))) = heap sampleRuntime
   \<and> recordsAt (heap (snd (filterThenRender sampleDates sampleRuntime))) 3 =
       [sampleActivity, sampleActivity\<lparr>customerName := ''XYZ Co''\<rparr>, undatedActivity]
   \<and> filteredActivities_c (snd (filterThenRender sampleDates sampleRuntime)) = 5
   \<and> fst (filterThenRender sampleDates (snd (filterThenRender sampleDates sampleRuntime))) =
       Inr ([sampleActivity, undatedActivity], (200, 0, 2, 0))
   \<and> wellFormed otherRuntime
   \<and> recordsAt (heap otherRuntime) (activities_c otherRuntime) =
       recordsAt (heap sampleRuntime) (activities_c sampleRuntime)
   \<and> fst (filterThenRender sampleDates otherRuntime) =
       Inr ([sampleActivity, undatedActivity], (200, 0, 2, 0))"
proof -
  let ?run = "filterThenRender sampleDates sampleRuntime"
  have wf1: "wellFormed sampleRuntime" and wf2: "wellFormed otherRuntime"
    by (simp_all add: wellFormed_def recordArray_def isRecordRef_def sampleRuntime_def
        otherRuntime_def)
  have recs1: "recordsAt (heap sampleRuntime) (activities_c sampleRuntime) =
      [sampleActivity, sampleActivity\<lparr>customerName := ''XYZ Co''\<rparr>, undatedActivity]"
    and recs2: "recordsAt (heap otherRuntime) (activities_c otherRuntime) =
      [sampleActivity, sampleActivity\<lparr>customerName := ''XYZ Co''\<rparr>, undatedActivity]"
    by (simp_all add: recordsAt_def refsAt_def sampleRuntime_def otherRuntime_def)
  have pure: "filterActivities sampleDates (abstract sampleRuntime) =
      Inr ((abstract sampleRuntime)\<lparr>filteredActivities := [sampleActivity, undatedActivity]\<rparr>)"
    unfolding abstract_def recs1
    by (simp add: filterActivities_def sampleRuntime_def keepActivity_def matchesDateRange_def
        isoDay_def sampleDates_def matchesSearch_def matchesType_def sampleActivity_def
        undatedActivity_def toLowerCase_def toLowerChar_def)
  have figures: "summaryOf [sampleActivity, undatedActivity] = (200, 0, 2, 0)"
    by (simp add: summaryOf_def totalSales_def totalPayments_def completedActivities_def
        pendingActivities_def sampleActivity_def undatedActivity_def)
  have len: "length (heap sampleRuntime) = 5" and act: "activities_c sampleRuntime = 3"
    by (simp_all add: sampleRuntime_def)
  have same: "searchTerm_c otherRuntime = searchTerm_c sampleRuntime"
    "typeFilter_c otherRuntime = typeFilter_c sampleRuntime"
    "fromDate_c otherRuntime = fromDate_c sampleRuntime"
    "toDate_c otherRuntime = toDate_c sampleRuntime"
    by (simp_all add: sampleRuntime_def otherRuntime_def)
  note main = filterThenRender_frame_and_determinism
    [of sampleRuntime sampleDates otherRuntime sampleRuntime]
  from main wf1 have frame:
    "take (length (heap sampleRuntime)) (heap (snd ?run)) = heap sampleRuntime
     \<and> searchTerm_c (snd ?run) = searchTerm_c sampleRuntime
     \<and> typeFilter_c (snd ?run) = typeFilter_c sampleRuntime
     \<and> fromDate_c (snd ?run) = fromDate_c sampleRuntime
     \<and> toDate_c (snd ?run) = toDate_c sampleRuntime
     \<and> activities_c (snd ?run) = activities_c sampleRuntime
     \<and> refsAt (heap (snd ?run)) (activities_c (snd ?run)) =
         refsAt (heap sampleRuntime) (activities_c sampleRuntime)
     \<and> recordsAt (heap (snd ?run)) (activities_c (snd ?run)) =
         recordsAt (heap sampleRuntime) (activities_c sampleRuntime)
     \<and> filteredActivities_c (snd ?run) =
         (case fst ?run of Inl f \<Rightarrow> filteredActivities_c sampleRuntime
          | Inr v \<Rightarrow> length (heap sampleRuntime))
     \<and> wellFormed (snd ?run)
     \<and> fst ?run = map_sum Thrown (\<lambda>s. (filteredActivities s, summaryOf (filteredActivities s)))
                     (filterActivities sampleDates (abstract sampleRuntime))
     \<and> fst (filterThenRender sampleDates (snd ?run)) = fst ?run"
    unfolding case_prod_beta by (rule conjunct1 [THEN mp])
  have det: "fst (filterThenRender sampleDates otherRuntime) = fst ?run"
    by (rule main [THEN conjunct2, THEN mp]) (simp add: wf1 wf2 same recs1 recs2)
  from frame have f1: "take (length (heap sampleRuntime)) (heap (snd ?run)) = heap sampleRuntime"
    by blast
  from frame have f2: "activities_c (snd ?run) = activities_c sampleRuntime"
    by blast
  from frame have f3: "recordsAt (heap (snd ?run)) (activities_c (snd ?run)) =
         recordsAt (heap sampleRuntime) (activities_c sampleRuntime)"
    by blast
  from frame have f4: "filteredActivities_c (snd ?run) =
         (case fst ?run of Inl f \<Rightarrow> filteredActivities_c sampleRuntime
          | Inr v \<Rightarrow> length (heap sampleRuntime))"
    by blast
  from frame have f5: "fst ?run =
      map_sum Thrown (\<lambda>s. (filteredActivities s, summaryOf (filteredActivities s)))
        (filterActivities sampleDates (abstract sampleRuntime))"
    by blast
  from frame have f6: "fst (filterThenRender sampleDates (snd ?run)) = fst ?run"
    by blast
  have 1: "fst ?run = Inr ([sampleActivity, undatedActivity], (200, 0, 2, 0))"
    by (simp add: f5 pure figures)
  have 2: "take 5 (heap (snd ?run)) = heap sampleRuntime"
    using f1 by (simp add: len)
  have 3: "recordsAt (heap (snd ?run)) 3 =
       [sampleActivity, sampleActivity\<lparr>customerName := ''XYZ Co''\<rparr>, undatedActivity]"
    using f3 recs1 by (simp add: f2 act)
  have 4: "filteredActivities_c (snd ?run) = 5"
    by (simp add: f4 1 len)
  have 5: "fst (filterThenRender sampleDates (snd ?run)) =
       Inr ([sampleActivity, undatedActivity], (200, 0, 2, 0))"
    by (simp add: f6 1)
  have 6: "fst (filterThenRender sampleDates otherRuntime) =
       Inr ([sampleActivity, undatedActivity], (200, 0, 2, 0))"
    by (simp add: det 1)
  have 7: "recordsAt (heap otherRuntime) (activities_c otherRuntime) =
       recordsAt (heap sampleRuntime) (activities_c sampleRuntime)"
    by (simp add: recs1 recs2)
  show ?thesis
    by (intro conjI wf1 wf2 1 2 3 4 5 6 7)
qed

section \<open>The expense total in binary floating point\<close>

lemma ilog2_bounds:
  assumes "x \<noteq> 0"
  shows "2 powi (ilog2 x) \<le> \<bar>x\<bar>" and "\<bar>x\<bar> < 2 powi (ilog2 x + 1)"
proof -
  let ?a = "\<bar>x\<bar>"
  from assms have pos: "0 < ?a" by simp
  have "2 powi (ilog2 x) \<le> ?a \<and> ?a < 2 powi (ilog2 x + 1)"
  proof (cases "1 \<le> ?a")
    case True
    let ?n = "\<lfloor>?a\<rfloor>"
    from True have n: "0 < ?n" by simp
    from bitlen_bounds [OF n] have lo: "2 ^ nat (bitlen ?n - 1) \<le> ?n" and hi: "?n < 2 ^ nat (bitlen ?n)"
      by simp_all
    from n have b1: "1 \<le> bitlen ?n" by (simp add: bitlen_alt_def)
    have il: "ilog2 x = bitlen ?n - 1" using True by (simp add: ilog2_def)
    have "(2::rat) powi (bitlen ?n - 1) = 2 ^ nat (bitlen ?n - 1)"
      using b1 by (simp add: power_int_def)
    also have "\<dots> = of_int (2 ^ nat (bitlen ?n - 1))" by simp
    also have "\<dots> \<le> of_int ?n" using lo by (simp only: of_int_le_iff)
    also have "\<dots> \<le> ?a" by simp
    finally have 1: "2 powi (ilog2 x) \<le> ?a" by (simp add: il)
    from hi have "?n + 1 \<le> 2 ^ nat (bitlen ?n)" by simp
    then have "(of_int (?n + 1) :: rat) \<le> of_int (2 ^ nat (bitlen ?n))"
      by (simp only: of_int_le_iff)
    moreover have "?a < of_int (?n + 1)" by linarith
    ultimately have "?a < 2 ^ nat (bitlen ?n)" by simp
    moreover have "(2::rat) powi (bitlen ?n - 1 + 1) = 2 ^ nat (bitlen ?n)"
      using b1 by (simp add: power_int_def)
    ultimately have 2: "?a < 2 powi (ilog2 x + 1)" by (simp add: il)
    from 1 2 show ?thesis by simp
  next
    case False
    let ?y = "1 / ?a"
    let ?m = "\<lceil>?y\<rceil>"
    from False pos have y1: "1 < ?y" by (simp add: field_simps)
    then have m2: "2 \<le> ?m" by (simp add: le_ceiling_iff)
    then have n: "0 < ?m - 1" by simp
    let ?b = "bitlen (?m - 1)"
    from bitlen_bounds [OF n] have lo: "2 ^ nat (?b - 1) \<le> ?m - 1" and hi: "?m - 1 < 2 ^ nat ?b"
      by simp_all
    from n have b1: "1 \<le> ?b" by (simp add: bitlen_alt_def)
    have il: "ilog2 x = - ?b" using False by (simp add: ilog2_def)
    have "(of_int (?m - 1) :: rat) < ?y" by (simp add: less_ceiling_iff [symmetric]) linarith
    moreover have "(of_int (2 ^ nat (?b - 1)) :: rat) \<le> of_int (?m - 1)"
      using lo by (simp only: of_int_le_iff)
    ultimately have ylo: "2 ^ nat (?b - 1) < ?y" by simp
    from hi have mle: "?m \<le> 2 ^ nat ?b" by simp
    have "?y \<le> of_int ?m" by (rule le_of_int_ceiling)
    also have "(of_int ?m :: rat) \<le> of_int (2 ^ nat ?b)" using mle by (simp only: of_int_le_iff)
    also have "\<dots> = 2 ^ nat ?b" by simp
    finally have yhi: "?y \<le> 2 ^ nat ?b" .
    have p1: "(2::rat) powi (- ?b) = 1 / 2 ^ nat ?b"
      using b1 by (simp add: power_int_def field_simps)
    have "(2::rat) powi (1 - ?b) = 2 powi (- (?b - 1))" by simp
    also have "\<dots> = inverse (2 powi (?b - 1))" by (rule power_int_minus)
    also have "\<dots> = 1 / 2 ^ nat (?b - 1)"
      using b1 by (simp add: power_int_def inverse_eq_divide)
    finally have p2: "(2::rat) powi (1 - ?b) = 1 / 2 ^ nat (?b - 1)" .
    from yhi pos have 1: "1 / 2 ^ nat ?b \<le> ?a"
      by (simp add: field_simps)
    from ylo pos have 2: "?a < 1 / 2 ^ nat (?b - 1)"
      by (simp add: field_simps)
    from 1 2 show ?thesis by (simp add: il p1 p2)
  qed
  then show "2 powi (ilog2 x) \<le> \<bar>x\<bar>" and "\<bar>x\<bar> < 2 powi (ilog2 x + 1)" by simp_all
qed

lemma ilog2_unique:
  assumes "x \<noteq> 0" and "2 powi k \<le> \<bar>x\<bar>" and "\<bar>x\<bar> < 2 powi (k + 1)"
  shows "ilog2 x = k"
proof (rule ccontr)
  assume ne: "ilog2 x \<noteq> k"
  note b = ilog2_bounds [OF assms(1)]
  show False
  proof (cases "ilog2 x < k")
    case True
    then have "(2::rat) powi (ilog2 x + 1) \<le> 2 powi k"
      by (intro power_int_increasing) simp_all
    with assms(2) b(2) show False by simp
  next
    case False
    with ne have "(2::rat) powi (k + 1) \<le> 2 powi (ilog2 x)"
      by (intro power_int_increasing) simp_all
    with assms(3) b(1) show False by simp
  qed
qed

lemma roundHalfEven_of_int: "roundHalfEven (of_int n) = n"
  by (simp add: roundHalfEven_def)

lemma roundHalfEven_error: "\<bar>of_int (roundHalfEven z) - z\<bar> \<le> 1 / 2"
proof -
  have "of_int \<lfloor>z\<rfloor> \<le> z" and "z < of_int \<lfloor>z\<rfloor> + 1" by linarith+
  then show ?thesis
    by (auto simp: roundHalfEven_def Let_def)
qed

lemma round64_error:
  assumes "round64 x = Finite y"
  shows "\<bar>y - x\<bar> \<le> 2 powi (ulpExponent x) / 2"
proof (cases "x = 0")
  case True
  with assms show ?thesis by (simp add: round64_def)
next
  case False
  let ?u = "ulpExponent x"
  let ?r = "roundHalfEven (x / 2 powi ?u)"
  have pos: "(0::rat) < 2 powi ?u" by simp
  from assms False have y: "y = of_int ?r * 2 powi ?u"
    by (simp add: round64_def Let_def split: if_splits)
  have "y - x = (of_int ?r - x / 2 powi ?u) * 2 powi ?u"
    using pos by (simp add: y field_simps)
  then have "\<bar>y - x\<bar> = \<bar>of_int ?r - x / 2 powi ?u\<bar> * 2 powi ?u"
    using pos by (simp add: abs_mult)
  also have "\<dots> \<le> (1 / 2) * 2 powi ?u"
    using pos by (intro mult_right_mono roundHalfEven_error) simp
  finally show ?thesis by simp
qed

lemma ulpExponent_relative:
  assumes "x \<noteq> 0"
  shows "2 powi (ulpExponent x) \<le> max (\<bar>x\<bar> * 2 powi (- 52)) (2 powi (- 1074))"
proof -
  have "(2::rat) powi (ilog2 x - 52) = 2 powi (ilog2 x) * 2 powi (- 52)"
    by (simp add: power_int_diff power_int_minus field_simps)
  also have "\<dots> \<le> \<bar>x\<bar> * 2 powi (- 52)"
    using ilog2_bounds(1) [OF assms] by (intro mult_right_mono) simp_all
  finally have "(2::rat) powi (ilog2 x - 52) \<le> \<bar>x\<bar> * 2 powi (- 52)" .
  then show ?thesis
    by (cases "ilog2 x - 52 \<le> - 1074") (simp_all add: ulpExponent_def max_def)
qed

lemma round64_representable:
  assumes "\<bar>m\<bar> < 2 ^ 53" and "- 1074 \<le> e" and "e \<le> 971"
  shows "round64 (of_int m * 2 powi e) = Finite (of_int m * 2 powi e)"
proof (cases "m = 0")
  case True
  then show ?thesis by (simp add: round64_def)
next
  case False
  let ?x = "of_int m * (2::rat) powi e"
  let ?u = "ulpExponent ?x"
  have x0: "?x \<noteq> 0" using False by simp
  have "\<bar>?x\<bar> = of_int \<bar>m\<bar> * 2 powi e" by (simp add: abs_mult)
  also have "\<dots> < of_int (2 ^ 53) * 2 powi e"
    using assms(1) by (intro mult_strict_right_mono) (simp_all only: of_int_less_iff zero_less_power_int zero_less_numeral)
  also have "\<dots> = 2 powi (53 + e)"
    by (simp add: power_int_add)
  finally have xlt: "\<bar>?x\<bar> < 2 powi (53 + e)" .
  have "\<not> 53 + e \<le> ilog2 ?x"
  proof
    assume "53 + e \<le> ilog2 ?x"
    then have "(2::rat) powi (53 + e) \<le> 2 powi (ilog2 ?x)"
      by (intro power_int_increasing) simp_all
    with ilog2_bounds(1) [OF x0] xlt show False by simp
  qed
  with assms(2) have ule: "?u \<le> e" by (simp add: ulpExponent_def)
  have split: "(2::rat) powi e = 2 powi (e - ?u) * 2 powi ?u"
    by (simp flip: power_int_add)
  have nn: "(2::rat) powi (e - ?u) = of_int (2 ^ nat (e - ?u))"
    using ule by (simp add: power_int_def)
  have "?x / 2 powi ?u = of_int m * 2 powi (e - ?u)"
    by (subst split) simp
  also have "\<dots> = of_int (m * 2 ^ nat (e - ?u))"
    by (simp add: nn)
  finally have q: "?x / 2 powi ?u = of_int (m * 2 ^ nat (e - ?u))" .
  have r: "of_int (roundHalfEven (?x / 2 powi ?u)) * 2 powi ?u = ?x"
    unfolding q roundHalfEven_of_int by (subst (2) split) (simp add: nn)
  have "(2::rat) powi (53 + e) \<le> 2 powi 1024"
    using assms(3) by (intro power_int_increasing) simp_all
  with xlt have fin: "\<not> 2 powi 1024 \<le> \<bar>?x\<bar>" by simp
  show ?thesis
    using x0 fin by (simp add: round64_def Let_def r del: power_int_numeral)
qed

lemma round64_of_int:
  assumes "\<bar>v\<bar> < 2 ^ 53"
  shows "round64 (of_int v) = Finite (of_int v)"
  using round64_representable [OF assms, of 0] by simp

lemma totalExpenses_Nil: "totalExpenses prefixOf [] = Finite 0"
  by (simp add: totalExpenses_def)

lemma totalExpenses_snoc:
  "totalExpenses prefixOf (es @ [e]) =
     add64 (totalExpenses prefixOf es) (parseFloat prefixOf (amountOrZero e))"
  by (simp add: totalExpenses_def)

lemma round64_eval:
  assumes "x \<noteq> 0" and "2 powi k \<le> \<bar>x\<bar>" and "\<bar>x\<bar> < 2 powi (k + 1)"
    and "u = max (k - 52) (- 1074)" and "roundHalfEven (x / 2 powi u) = r"
    and "\<bar>rat_of_int r * 2 powi u\<bar> < 2 powi 1024"
  shows "round64 x = Finite (of_int r * 2 powi u)"
proof -
  have "ulpExponent x = u"
    using ilog2_unique [OF assms(1-3)] assms(4) by (simp add: ulpExponent_def)
  then show ?thesis
    using assms(1,5,6) by (simp add: round64_def Let_def del: power_int_numeral)
qed

lemma roundHalfEven_eval:
  assumes "of_int n \<le> z" and "z < of_int n + 1"
  shows "roundHalfEven z =
           (if z - of_int n < 1 / 2 then n
            else if 1 / 2 < z - of_int n then n + 1
            else if even n then n else n + 1)"
proof -
  have "\<lfloor>z\<rfloor> = n"
    using assms by (simp add: floor_unique)
  then show ?thesis
    by (simp add: roundHalfEven_def Let_def)
qed

lemma round_tenth: "round64 (1 / 10) = Finite (3602879701896397 / 36028797018963968)"
proof -
  have "round64 (1 / 10) = Finite (of_int 7205759403792794 * 2 powi (- 56))"
  proof (rule round64_eval [where k = "- 4"])
    show "roundHalfEven (1 / 10 / 2 powi (- 56)) = 7205759403792794"
      using roundHalfEven_eval [of 7205759403792793 "1 / 10 / 2 powi (- 56)"] by simp
  qed simp_all
  then show ?thesis by simp
qed

lemma round_fifth: "round64 (1 / 5) = Finite (3602879701896397 / 18014398509481984)"
proof -
  have "round64 (1 / 5) = Finite (of_int 7205759403792794 * 2 powi (- 55))"
  proof (rule round64_eval [where k = "- 3"])
    show "roundHalfEven (1 / 5 / 2 powi (- 55)) = 7205759403792794"
      using roundHalfEven_eval [of 7205759403792793 "1 / 5 / 2 powi (- 55)"] by simp
  qed simp_all
  then show ?thesis by simp
qed

lemma round_tenth_again:
  "round64 (3602879701896397 / 36028797018963968) = Finite (3602879701896397 / 36028797018963968)"
  using round64_representable [of 3602879701896397 "- 55"] by simp

lemma round_sum:
  "round64 (10808639105689191 / 36028797018963968) = Finite (1351079888211149 / 4503599627370496)"
proof -
  have "round64 (10808639105689191 / 36028797018963968) =
          Finite (of_int 5404319552844596 * 2 powi (- 54))"
  proof (rule round64_eval [where k = "- 2"])
    show "roundHalfEven (10808639105689191 / 36028797018963968 / 2 powi (- 54)) = 5404319552844596"
      using roundHalfEven_eval
        [of 5404319552844595 "10808639105689191 / 36028797018963968 / 2 powi (- 54)"]
      by simp
  qed simp_all
  then show ?thesis by simp
qed

lemma round_2_53_plus_1: "round64 9007199254740993 = Finite 9007199254740992"
proof -
  have "round64 9007199254740993 = Finite (of_int 4503599627370496 * 2 powi 1)"
  proof (rule round64_eval [where k = 53])
    show "roundHalfEven (9007199254740993 / 2 powi 1) = 4503599627370496"
      using roundHalfEven_eval [of 4503599627370496 "9007199254740993 / 2 powi 1"] by simp
  qed simp_all
  then show ?thesis by simp
qed

text \<open>
  C4 as stated fails. The expense total is accumulated in binary floating point: for the
  amounts \<^verbatim>\<open>0.10\<close> and \<^verbatim>\<open>0.20\<close> the total is the binary64 value
  \<open>1351079888211149 / 4503599627370496\<close> (printed as \<^verbatim>\<open>0.30000000000000004\<close>), not
  the decimal \<open>3/10\<close>; and for the amounts \<^verbatim>\<open>9007199254740992\<close> and \<^verbatim>\<open>1\<close> the
  total is \<open>2 ^ 53\<close>, not \<open>2 ^ 53 + 1\<close>.
\<close>

theorem totalExpenses_not_exact_decimal:
  "totalExpenses sampleAmounts [expenseOf ''0.10'', expenseOf ''0.20''] =
     Finite (1351079888211149 / 4503599627370496)
   \<and> totalExpenses sampleAmounts [expenseOf ''0.10'', expenseOf ''0.20''] \<noteq> Finite (1 / 10 + 2 / 10)
   \<and> totalExpenses sampleAmounts [expenseOf ''9007199254740992'', expenseOf ''1''] =
     Finite 9007199254740992
   \<and> totalExpenses sampleAmounts [expenseOf ''9007199254740992'', expenseOf ''1''] \<noteq>
     Finite (9007199254740992 + 1)"
proof -
  have 1: "totalExpenses sampleAmounts [expenseOf ''0.10'', expenseOf ''0.20''] =
     Finite (1351079888211149 / 4503599627370496)"
    by (simp add: totalExpenses_def parseFloat_def amountOrZero_def expenseOf_def sampleAmounts_def
        round_tenth round_fifth round_tenth_again round_sum)
  have big: "round64 9007199254740992 = Finite 9007199254740992"
    using round64_representable [of 4503599627370496 1] by simp
  have one: "round64 1 = Finite 1"
    using round64_of_int [of 1] by simp
  have 2: "totalExpenses sampleAmounts [expenseOf ''9007199254740992'', expenseOf ''1''] =
     Finite 9007199254740992"
    using round_2_53_plus_1
    by (simp add: totalExpenses_def parseFloat_def amountOrZero_def expenseOf_def sampleAmounts_def
        big one)
  show ?thesis
    unfolding 1 2 by simp
qed

lemma parseFloat_whole:
  assumes "prefixOf s = Value (of_int v)" and "\<bar>v\<bar> < 2 ^ 53"
  shows "parseFloat prefixOf s = Finite (of_int v)"
  using assms by (simp add: parseFloat_def round64_of_int)

lemma add64_whole:
  assumes "\<bar>a + v\<bar> < 2 ^ 53"
  shows "add64 (Finite (of_int a)) (Finite (of_int v)) = Finite (of_int (a + v))"
  using round64_of_int [OF assms] by simp

lemma foldl_whole_amounts:
  assumes "list_all2 (\<lambda>e v. prefixOf (amountOrZero e) = Value (of_int v)) es vs"
    and "\<forall>v\<in>set vs. \<bar>v\<bar> < 2 ^ 53"
    and "\<forall>ys\<in>set (prefixes vs). \<bar>a + sum_list ys\<bar> < 2 ^ 53"
  shows "foldl (\<lambda>sum expense. add64 sum (parseFloat prefixOf (amountOrZero expense)))
           (Finite (of_int a)) es = Finite (of_int (a + sum_list vs))"
  using assms
proof (induction es vs arbitrary: a rule: list_all2_induct)
  case Nil
  then show ?case by simp
next
  case (Cons e es v vs)
  have p: "parseFloat prefixOf (amountOrZero e) = Finite (of_int v)"
    using Cons.hyps(1) Cons.prems(1) by (simp add: parseFloat_whole)
  have "[v] \<in> set (prefixes (v # vs))" by simp
  with Cons.prems(2) have "\<bar>a + sum_list [v]\<bar> < 2 ^ 53" by blast
  then have "\<bar>a + v\<bar> < 2 ^ 53" by simp
  then have s: "round64 (of_int a + of_int v) = Finite (of_int a + of_int v)"
    using round64_of_int [of "a + v"] by simp
  have "\<forall>ys\<in>set (prefixes vs). \<bar>(a + v) + sum_list ys\<bar> < 2 ^ 53"
  proof
    fix ys assume "ys \<in> set (prefixes vs)"
    then have "v # ys \<in> set (prefixes (v # vs))" by simp
    with Cons.prems(2) have "\<bar>a + sum_list (v # ys)\<bar> < 2 ^ 53" by blast
    then show "\<bar>(a + v) + sum_list ys\<bar> < 2 ^ 53" by (simp add: add.assoc)
  qed
  with Cons.IH [of "a + v"] Cons.prems(1)
  have "foldl (\<lambda>sum expense. add64 sum (parseFloat prefixOf (amountOrZero expense)))
           (Finite (of_int (a + v))) es = Finite (of_int ((a + v) + sum_list vs))"
    by simp
  then show ?case
    by (simp add: p s add.assoc)
qed

lemma totalExpenses_whole_amounts:
  assumes "list_all2 (\<lambda>e v. prefixOf (amountOrZero e) = Value (of_int v)) es vs"
    and "\<forall>v\<in>set vs. \<bar>v\<bar> < 2 ^ 53"
    and "\<forall>ys\<in>set (prefixes vs). \<bar>sum_list ys\<bar> < 2 ^ 53"
  shows "totalExpenses prefixOf es = Finite (of_int (sum_list vs))"
  using foldl_whole_amounts [of prefixOf es vs 0] assms by (simp add: totalExpenses_def)

lemma roundHalfEven_bound:
  assumes "\<bar>z\<bar> \<le> of_int n"
  shows "\<bar>roundHalfEven z\<bar> \<le> n"
proof (cases "\<lfloor>z\<rfloor> = n")
  case True
  have "of_int \<lfloor>z\<rfloor> \<le> z" by linarith
  with True assms have "z = of_int n" by linarith
  moreover have "0 \<le> n" using assms by linarith
  ultimately show ?thesis by (simp add: roundHalfEven_of_int)
next
  case False
  have "\<lfloor>z\<rfloor> \<le> n" and "- n \<le> \<lfloor>z\<rfloor>" using assms by linarith+
  moreover have "roundHalfEven z = \<lfloor>z\<rfloor> \<or> roundHalfEven z = \<lfloor>z\<rfloor> + 1"
    by (simp add: roundHalfEven_def Let_def)
  ultimately show ?thesis using False by linarith
qed

lemma round64_significand:
  assumes "round64 x = Finite y" and "x \<noteq> 0"
  shows "y = of_int (roundHalfEven (x / 2 powi (ulpExponent x))) * 2 powi (ulpExponent x)
         \<and> \<bar>roundHalfEven (x / 2 powi (ulpExponent x))\<bar> \<le> 2 ^ 53"
proof -
  let ?u = "ulpExponent x"
  from assms have y: "y = of_int (roundHalfEven (x / 2 powi ?u)) * 2 powi ?u"
    by (simp add: round64_def Let_def split: if_splits)
  have "ilog2 x - 52 \<le> ?u" by (simp add: ulpExponent_def)
  then have "(2::rat) powi (ilog2 x + 1) \<le> 2 powi (?u + 53)"
    by (intro power_int_increasing) simp_all
  with ilog2_bounds(2) [OF assms(2)] have "\<bar>x\<bar> < 2 powi (?u + 53)" by simp
  also have "(2::rat) powi (?u + 53) = 2 powi ?u * 2 ^ 53"
    by (simp add: power_int_add)
  finally have "\<bar>x\<bar> / 2 powi ?u < 2 ^ 53"
    by (simp add: field_simps)
  then have "\<bar>x / 2 powi ?u\<bar> \<le> of_int (2 ^ 53)"
    by (simp add: abs_divide)
  from roundHalfEven_bound [OF this] y show ?thesis by simp
qed

lemma ulpExponent_tenth: "ulpExponent (1 / 10) = - 56"
  using ilog2_unique [of "1 / 10" "- 4"] by (simp add: ulpExponent_def)

text \<open>
  C4, amended. The expense total is accumulated in IEEE 754 binary64 arithmetic, not in
  decimal arithmetic: it starts at zero, each amount is converted by \<^verbatim>\<open>parseFloat\<close> to
  the binary64 value nearest to its decimal value, and each addition is the exact sum of
  the two operands rounded to the nearest binary64 value, ties to even. A finite result
  of a conversion or an addition is an integer multiple, of magnitude at most
  \<open>2 ^ 53\<close>, of the unit in the last place of the exact value, and differs from the
  exact value by at most half that unit, which is at most \<open>2 ^ - 52\<close> times the
  magnitude of the exact value or \<open>2 ^ - 1074\<close>. Values that binary64 represents are
  not rounded at all; in particular there is no rounding to two decimal places during
  accumulation, and a total of whole amounts is exact as long as the amounts and all
  partial sums are below \<open>2 ^ 53\<close> in magnitude.
\<close>

theorem totalExpenses_binary64_accumulation:
  "totalExpenses prefixOf [] = Finite 0
   \<and> totalExpenses prefixOf (es @ [e]) =
       add64 (totalExpenses prefixOf es) (parseFloat prefixOf (amountOrZero e))
   \<and> (prefixOf s = Value q \<longrightarrow> parseFloat prefixOf s = round64 q)
   \<and> add64 (Finite a) (Finite b) = round64 (a + b)
   \<and> (round64 x = Finite y \<longrightarrow> \<bar>y - x\<bar> \<le> 2 powi (ulpExponent x) / 2)
   \<and> (round64 x = Finite y \<and> x \<noteq> 0 \<longrightarrow>
        y = of_int (roundHalfEven (x / 2 powi (ulpExponent x))) * 2 powi (ulpExponent x)
        \<and> \<bar>roundHalfEven (x / 2 powi (ulpExponent x))\<bar> \<le> 2 ^ 53
        \<and> 2 powi (ulpExponent x) \<le> max (\<bar>x\<bar> * 2 powi (- 52)) (2 powi (- 1074)))
   \<and> (\<bar>m\<bar> < 2 ^ 53 \<and> - 1074 \<le> k \<and> k \<le> 971 \<longrightarrow>
        round64 (of_int m * 2 powi k) = Finite (of_int m * 2 powi k))
   \<and> (list_all2 (\<lambda>expense v. prefixOf (amountOrZero expense) = Value (of_int v)) whole vs
        \<and> (\<forall>v\<in>set vs. \<bar>v\<bar> < 2 ^ 53)
        \<and> (\<forall>ys\<in>set (prefixes vs). \<bar>sum_list ys\<bar> < 2 ^ 53) \<longrightarrow>
        totalExpenses prefixOf whole = Finite (of_int (sum_list vs)))"
proof (intro conjI impI)
  show "totalExpenses prefixOf [] = Finite 0"
    by (rule totalExpenses_Nil)
  show "totalExpenses prefixOf (es @ [e]) =
       add64 (totalExpenses prefixOf es) (parseFloat prefixOf (amountOrZero e))"
    by (rule totalExpenses_snoc)
  show "parseFloat prefixOf s = round64 q" if "prefixOf s = Value q"
    using that by (simp add: parseFloat_def)
  show "add64 (Finite a) (Finite b) = round64 (a + b)"
    by simp
  show "\<bar>y - x\<bar> \<le> 2 powi (ulpExponent x) / 2" if "round64 x = Finite y"
    using that by (rule round64_error)
  show "y = of_int (roundHalfEven (x / 2 powi (ulpExponent x))) * 2 powi (ulpExponent x)"
    if "round64 x = Finite y \<and> x \<noteq> 0"
    using round64_significand [of x y] that by simp
  show "\<bar>roundHalfEven (x / 2 powi (ulpExponent x))\<bar> \<le> 2 ^ 53"
    if "round64 x = Finite y \<and> x \<noteq> 0"
    using round64_significand [of x y] that by simp
  show "2 powi (ulpExponent x) \<le> max (\<bar>x\<bar> * 2 powi (- 52)) (2 powi (- 1074))"
    if "round64 x = Finite y \<and> x \<noteq> 0"
    using ulpExponent_relative [of x] that by simp
  show "round64 (of_int m * 2 powi k) = Finite (of_int m * 2 powi k)"
    if "\<bar>m\<bar> < 2 ^ 53 \<and> - 1074 \<le> k \<and> k \<le> 971"
    using that by (simp add: round64_representable)
  show "totalExpenses prefixOf whole = Finite (of_int (sum_list vs))"
    if "list_all2 (\<lambda>expense v. prefixOf (amountOrZero expense) = Value (of_int v)) whole vs
        \<and> (\<forall>v\<in>set vs. \<bar>v\<bar> < 2 ^ 53)
        \<and> (\<forall>ys\<in>set (prefixes vs). \<bar>sum_list ys\<bar> < 2 ^ 53)"
    using that by (intro totalExpenses_whole_amounts) simp_all
qed

theorem totalExpenses_binary64_accumulation_witness:
  "sampleAmounts ''0.125'' = Value (1 / 8)
   \<and> parseFloat sampleAmounts ''0.125'' = Finite (1 / 8)
   \<and> totalExpenses sampleAmounts [expenseOf ''0.125''] = Finite (1 / 8)
   \<and> round64 (1 / 10) = Finite (3602879701896397 / 36028797018963968)
   \<and> \<bar>3602879701896397 / 36028797018963968 - 1 / 10\<bar> \<le> 2 powi (- 56) / (2::rat)
   \<and> \<bar>roundHalfEven (1 / 10 / 2 powi (- 56))\<bar> \<le> 2 ^ 53
   \<and> list_all2 (\<lambda>expense v. sampleAmounts (amountOrZero expense) = Value (of_int v))
        [expenseOf ''100'', expenseOf ''250.00'', expenseOf []] [100, 250, 0]
   \<and> totalExpenses sampleAmounts [expenseOf ''100'', expenseOf ''250.00'', expenseOf []] = Finite 350"
proof -
  note main = totalExpenses_binary64_accumulation
    [where prefixOf = sampleAmounts and es = "[]" and e = "expenseOf ''0.125''"
       and s = "''0.125''" and q = "1 / 8" and a = 0 and b = "1 / 8"
       and x = "1 / 10" and y = "3602879701896397 / 36028797018963968"
       and m = 1 and k = "- 3"
       and whole = "[expenseOf ''100'', expenseOf ''250.00'', expenseOf []]"
       and vs = "[100, 250, 0]"]
  have v: "sampleAmounts ''0.125'' = Value (1 / 8)"
    by (simp add: sampleAmounts_def)
  have eighth: "round64 (1 / 8) = Finite (1 / 8)"
    using main by simp
  have p: "parseFloat sampleAmounts ''0.125'' = Finite (1 / 8)"
    using main v eighth by simp
  have am: "amountOrZero (expenseOf ''0.125'') = ''0.125''"
    by (simp add: amountOrZero_def expenseOf_def)
  have "totalExpenses sampleAmounts ([] @ [expenseOf ''0.125'']) =
          add64 (totalExpenses sampleAmounts []) (parseFloat sampleAmounts ''0.125'')"
    using main am by simp
  then have t: "totalExpenses sampleAmounts [expenseOf ''0.125''] = Finite (1 / 8)"
    using main by (simp add: p eighth)
  note r = round_tenth
  have err: "\<bar>3602879701896397 / 36028797018963968 - 1 / 10\<bar> \<le> 2 powi (- 56) / (2::rat)"
    using main r by (simp add: ulpExponent_tenth)
  have sig: "\<bar>roundHalfEven (1 / 10 / 2 powi (- 56))\<bar> \<le> 2 ^ 53"
    using main r by (simp add: ulpExponent_tenth)
  have l: "list_all2 (\<lambda>expense v. sampleAmounts (amountOrZero expense) = Value (of_int v))
        [expenseOf ''100'', expenseOf ''250.00'', expenseOf []] [100, 250, 0]"
    by (simp add: sampleAmounts_def amountOrZero_def expenseOf_def)
  have w: "totalExpenses sampleAmounts [expenseOf ''100'', expenseOf ''250.00'', expenseOf []] =
             Finite 350"
    using main l by simp
  show ?thesis
    by (intro conjI v p t r err sig l w)
qed

end
